theory Spec2Isabelle
  imports Main "HOL-Library.Word" "HOL-Library.Signed_Division"
begin

unbundle bit_operations_syntax

section \<open>Data model of wx/crypto.go\<close>

text \<open>
  Bytes are 8-bit words, byte slices are lists of bytes and Go's \<^verbatim>\<open>int\<close> is \<^typ>\<open>int\<close>
  (every integer of the code is a length or a block size, far below \<open>2 ^ 63\<close>).
  \<open>len\<close> is Go's \<^verbatim>\<open>len\<close>. Go's \<^verbatim>\<open>%\<close> truncates towards zero, which is \<open>smod\<close>.
\<close>

type_synonym byte = "8 word"

abbreviation len :: "'a list \<Rightarrow> int" where
  "len xs \<equiv> int (length xs)"

text \<open>
  Errors are the values the code returns as \<^verbatim>\<open>error\<close>; panics are the run-time
  panics of Go and of its standard library that the code can reach.
\<close>

datatype error =
    KeySizeError int      \<comment> \<open>\<^verbatim>\<open>aes.KeySizeError\<close>, returned by \<^verbatim>\<open>aes.NewCipher\<close>\<close>
  | ErrIVLength           \<comment> \<open>\<^verbatim>\<open>errors.New("IV length must equal block size")\<close>\<close>
  | ErrNoPEMData          \<comment> \<open>\<^verbatim>\<open>errors.New("no PEM data is found")\<close>\<close>
  | ErrHashUnavailable nat \<comment> \<open>\<^verbatim>\<open>fmt.Errorf("crypto: requested hash function (%s) is unavailable")\<close>\<close>
  | ErrVerification       \<comment> \<open>\<^verbatim>\<open>rsa.ErrVerification\<close>\<close>
  | LibraryError string   \<comment> \<open>any other error a library call returns\<close>

datatype panic =
    DivideByZero            \<comment> \<open>integer divide by zero\<close>
  | IndexOutOfRange         \<comment> \<open>index out of range\<close>
  | SliceBoundsOutOfRange   \<comment> \<open>slice bounds out of range\<close>
  | NegativeRepeatCount     \<comment> \<open>\<^verbatim>\<open>bytes: negative Repeat count\<close>\<close>
  | InputNotFullBlocks      \<comment> \<open>\<^verbatim>\<open>crypto/cipher: input not full blocks\<close>\<close>
  | OutputSmallerThanInput  \<comment> \<open>\<^verbatim>\<open>crypto/cipher: output smaller than input\<close>\<close>
  | IVLengthPanic           \<comment> \<open>\<^verbatim>\<open>cipher.NewCBCEncrypter: IV length must equal block size\<close>\<close>
  | InterfaceConversion     \<comment> \<open>a failed type assertion \<^verbatim>\<open>x.(T)\<close>\<close>
  | HashNotLinked           \<comment> \<open>\<^verbatim>\<open>crypto: requested hash function is unavailable\<close>, from \<^verbatim>\<open>hash.New\<close>\<close>

datatype failure = Error error | Panic panic

type_synonym 'a result = "failure + 'a"

type_synonym PaddingMode = string

definition ZERO :: PaddingMode where "ZERO = ''ZERO''"
definition PKCS5 :: PaddingMode where "PKCS5 = ''PKCS#5''"
definition PKCS7 :: PaddingMode where "PKCS7 = ''PKCS#7''"

section \<open>Padding\<close>

text \<open>
  \<^verbatim>\<open>ZeroPadding\<close> (lines 375-380). The remainder panics for a zero block size, and
  \<^verbatim>\<open>bytes.Repeat\<close> panics for a negative count.
\<close>

definition ZeroPadding :: "byte list \<Rightarrow> int \<Rightarrow> byte list result" where
  "ZeroPadding cipherText blockSize =
     (if blockSize = 0 then Inl (Panic DivideByZero)
      else let padding = blockSize - len cipherText smod blockSize in
        if padding < 0 then Inl (Panic NegativeRepeatCount)
        else Inr (cipherText @ replicate (nat padding) 0))"

text \<open>
  \<^verbatim>\<open>ZeroUnPadding\<close> (lines 382-386) is \<^verbatim>\<open>bytes.TrimRightFunc\<close> with the predicate
  \<^verbatim>\<open>r == rune(0)\<close>. The library decodes the slice from the right as UTF-8; the rune 0
  is the decoding of the single byte \<open>0x00\<close> and of nothing else (a byte from \<open>0x80\<close> on
  decodes to a rune from \<open>0x80\<close> on or to \<^verbatim>\<open>utf8.RuneError\<close>), so the call removes the
  longest suffix of \<open>0x00\<close> bytes.
\<close>

fun TrimRightZero :: "byte list \<Rightarrow> byte list" where
  "TrimRightZero [] = []"
| "TrimRightZero (x # xs) =
     (let r = TrimRightZero xs in if r = [] \<and> x = 0 then [] else x # r)"

definition ZeroUnPadding :: "byte list \<Rightarrow> byte list" where
  "ZeroUnPadding plainText = TrimRightZero plainText"

text \<open>
  \<^verbatim>\<open>PKCS5Padding\<close> (lines 388-398). \<^verbatim>\<open>byte(padding)\<close> keeps the low 8 bits.
\<close>

definition PKCS5Padding :: "byte list \<Rightarrow> int \<Rightarrow> byte list result" where
  "PKCS5Padding cipherText blockSize =
     (if blockSize = 0 then Inl (Panic DivideByZero)
      else let padding0 = blockSize - len cipherText smod blockSize;
               padding = (if padding0 = 0 then blockSize else padding0) in
        if padding < 0 then Inl (Panic NegativeRepeatCount)
        else Inr (cipherText @ replicate (nat padding) (word_of_int padding)))"

text \<open>
  \<^verbatim>\<open>PKCS5Unpadding\<close> (lines 400-409). Indexing the last byte of an empty slice panics,
  and so does a slice expression whose upper bound is negative.
\<close>

definition PKCS5Unpadding :: "byte list \<Rightarrow> int \<Rightarrow> byte list result" where
  "PKCS5Unpadding plainText blockSize =
     (let lgth = len plainText in
      if lgth - 1 < 0 then Inl (Panic IndexOutOfRange)
      else let unpadding0 = uint (plainText ! nat (lgth - 1));
               unpadding = (if unpadding0 < 1 \<or> unpadding0 > blockSize then 0 else unpadding0) in
        if lgth - unpadding < 0 then Inl (Panic SliceBoundsOutOfRange)
        else Inr (take (nat (lgth - unpadding)) plainText))"

section \<open>Block ciphers and block modes\<close>

text \<open>
  \<^verbatim>\<open>cipher.Block\<close>, the interface of the standard library: a block size and the
  encryption and decryption of one block. \<^verbatim>\<open>Encrypt(dst, src)\<close> writes the image of the
  block \<open>src\<close> over the first block of \<open>dst\<close>; the model keeps the image and the
  callers below do the write.
\<close>

record Block =
  BlockSize :: int
  Encrypt :: "byte list \<Rightarrow> byte list"
  Decrypt :: "byte list \<Rightarrow> byte list"

text \<open>
  \<^verbatim>\<open>aes.NewCipher\<close> belongs to the standard library, not to the repository. It fails with
  \<^verbatim>\<open>aes.KeySizeError\<close> unless the key has 16, 24 or 32 bytes. The cipher of a key is the
  parameter \<open>aes\<close>; what the theorems need of it is \<open>aes_contract\<close>: blocks of 16
  bytes, and decryption inverts encryption.
\<close>

definition NewCipher :: "(byte list \<Rightarrow> Block) \<Rightarrow> byte list \<Rightarrow> error + Block" where
  "NewCipher aes key =
     (if length key = 16 \<or> length key = 24 \<or> length key = 32 then Inr (aes key)
      else Inl (KeySizeError (len key)))"

definition valid_key :: "byte list \<Rightarrow> bool" where
  "valid_key key \<longleftrightarrow> length key = 16 \<or> length key = 24 \<or> length key = 32"

definition block_contract :: "Block \<Rightarrow> bool" where
  "block_contract blk \<longleftrightarrow>
     BlockSize blk = 16 \<and>
     (\<forall>x. length x = 16 \<longrightarrow>
        length (Encrypt blk x) = 16 \<and> length (Decrypt blk x) = 16 \<and>
        Decrypt blk (Encrypt blk x) = x)"

definition aes_contract :: "(byte list \<Rightarrow> Block) \<Rightarrow> bool" where
  "aes_contract aes \<longleftrightarrow> (\<forall>key. valid_key key \<longrightarrow> block_contract (aes key))"

text \<open>
  A block cipher that meets the contract, to show that it can be met: it adds 1 to every
  byte of the block.
\<close>

definition shift_cipher :: "byte list \<Rightarrow> Block" where
  "shift_cipher key =
     \<lparr>BlockSize = 16, Encrypt = map (\<lambda>x. x + 1), Decrypt = map (\<lambda>x. x - 1)\<rparr>"

subsection \<open>ECB (lines 411-474)\<close>

record ecb =
  ecb_b :: Block
  ecb_blockSize :: int

definition newECB :: "Block \<Rightarrow> ecb" where
  "newECB b = \<lparr>ecb_b = b, ecb_blockSize = BlockSize b\<rparr>"

definition NewECBEncrypter :: "Block \<Rightarrow> ecb" where
  "NewECBEncrypter b = newECB b"

definition NewECBDecrypter :: "Block \<Rightarrow> ecb" where
  "NewECBDecrypter b = newECB b"

text \<open>
  The loops of \<^verbatim>\<open>CryptBlocks\<close>. \<open>dst\<close> and \<open>src\<close> are the rests of the two slices;
  the value is the content of \<open>dst\<close> when the loop ends. The loops are entered with a
  positive block size that divides the length of \<open>src\<close>.
\<close>

function ecb_encrypt_loop :: "ecb \<Rightarrow> byte list \<Rightarrow> byte list \<Rightarrow> byte list" where
  "ecb_encrypt_loop x dst src =
     (if 0 < length src \<and> 0 < ecb_blockSize x
      then Encrypt (ecb_b x) (take (nat (ecb_blockSize x)) src)
           @ ecb_encrypt_loop x (drop (nat (ecb_blockSize x)) dst) (drop (nat (ecb_blockSize x)) src)
      else dst)"
  by pat_completeness auto
termination
  by (relation "measure (\<lambda>(x, dst, src). length src)") auto

function ecb_decrypt_loop :: "ecb \<Rightarrow> byte list \<Rightarrow> byte list \<Rightarrow> byte list" where
  "ecb_decrypt_loop x dst src =
     (if 0 < length src \<and> 0 < ecb_blockSize x
      then Decrypt (ecb_b x) (take (nat (ecb_blockSize x)) src)
           @ ecb_decrypt_loop x (drop (nat (ecb_blockSize x)) dst) (drop (nat (ecb_blockSize x)) src)
      else dst)"
  by pat_completeness auto
termination
  by (relation "measure (\<lambda>(x, dst, src). length src)") auto

text \<open>
  \<^verbatim>\<open>CryptBlocks(dst, src)\<close> returns nothing: its effect is on \<open>dst\<close>. The model returns
  the content of \<open>dst\<close> after the call and the panic, if the call panicked. With a
  negative block size the first slice expression of the loop panics.
\<close>

definition ecbEncrypter_CryptBlocks :: "ecb \<Rightarrow> byte list \<Rightarrow> byte list \<Rightarrow> byte list \<times> panic option" where
  "ecbEncrypter_CryptBlocks x dst src =
     (if ecb_blockSize x = 0 then (dst, Some DivideByZero)
      else if len src smod ecb_blockSize x \<noteq> 0 then (dst, Some InputNotFullBlocks)
      else if len dst < len src then (dst, Some OutputSmallerThanInput)
      else if 0 < len src \<and> ecb_blockSize x < 0 then (dst, Some SliceBoundsOutOfRange)
      else (ecb_encrypt_loop x dst src, None))"

definition ecbDecrypter_CryptBlocks :: "ecb \<Rightarrow> byte list \<Rightarrow> byte list \<Rightarrow> byte list \<times> panic option" where
  "ecbDecrypter_CryptBlocks x dst src =
     (if ecb_blockSize x = 0 then (dst, Some DivideByZero)
      else if len src smod ecb_blockSize x \<noteq> 0 then (dst, Some InputNotFullBlocks)
      else if len dst < len src then (dst, Some OutputSmallerThanInput)
      else if 0 < len src \<and> ecb_blockSize x < 0 then (dst, Some SliceBoundsOutOfRange)
      else (ecb_decrypt_loop x dst src, None))"

subsection \<open>CBC (\<^verbatim>\<open>crypto/cipher\<close> of the standard library)\<close>

text \<open>
  \<^verbatim>\<open>cipher.NewCBCEncrypter\<close> and \<^verbatim>\<open>cipher.NewCBCDecrypter\<close> panic unless the IV has the
  length of a block. Their \<^verbatim>\<open>CryptBlocks\<close> make the same two checks as the ECB adapter
  and then chain the blocks: a plaintext block is xor-ed with the previous ciphertext
  block (with the IV for the first block) before it is encrypted.
\<close>

record cbc =
  cbc_b :: Block
  cbc_blockSize :: int
  cbc_ivec :: "byte list"

definition xor_bytes :: "byte list \<Rightarrow> byte list \<Rightarrow> byte list" where
  "xor_bytes xs ys = map2 (XOR) xs ys"

definition newCBC :: "Block \<Rightarrow> byte list \<Rightarrow> panic + cbc" where
  "newCBC b iv =
     (if len iv \<noteq> BlockSize b then Inl IVLengthPanic
      else Inr \<lparr>cbc_b = b, cbc_blockSize = BlockSize b, cbc_ivec = iv\<rparr>)"

definition NewCBCEncrypter :: "Block \<Rightarrow> byte list \<Rightarrow> panic + cbc" where
  "NewCBCEncrypter b iv = newCBC b iv"

definition NewCBCDecrypter :: "Block \<Rightarrow> byte list \<Rightarrow> panic + cbc" where
  "NewCBCDecrypter b iv = newCBC b iv"

function cbc_encrypt_loop :: "Block \<Rightarrow> nat \<Rightarrow> byte list \<Rightarrow> byte list \<Rightarrow> byte list \<Rightarrow> byte list" where
  "cbc_encrypt_loop b bs iv dst src =
     (if 0 < length src \<and> 0 < bs
      then let c = Encrypt b (xor_bytes (take bs src) iv)
           in c @ cbc_encrypt_loop b bs c (drop bs dst) (drop bs src)
      else dst)"
  by pat_completeness auto
termination
  by (relation "measure (\<lambda>(b, bs, iv, dst, src). length src)") auto

function cbc_decrypt_loop :: "Block \<Rightarrow> nat \<Rightarrow> byte list \<Rightarrow> byte list \<Rightarrow> byte list \<Rightarrow> byte list" where
  "cbc_decrypt_loop b bs iv dst src =
     (if 0 < length src \<and> 0 < bs
      then xor_bytes (Decrypt b (take bs src)) iv
           @ cbc_decrypt_loop b bs (take bs src) (drop bs dst) (drop bs src)
      else dst)"
  by pat_completeness auto
termination
  by (relation "measure (\<lambda>(b, bs, iv, dst, src). length src)") auto

definition cbcEncrypter_CryptBlocks :: "cbc \<Rightarrow> byte list \<Rightarrow> byte list \<Rightarrow> byte list \<times> panic option" where
  "cbcEncrypter_CryptBlocks x dst src =
     (if cbc_blockSize x = 0 then (dst, Some DivideByZero)
      else if len src smod cbc_blockSize x \<noteq> 0 then (dst, Some InputNotFullBlocks)
      else if len dst < len src then (dst, Some OutputSmallerThanInput)
      else (cbc_encrypt_loop (cbc_b x) (nat (cbc_blockSize x)) (cbc_ivec x) dst src, None))"

definition cbcDecrypter_CryptBlocks :: "cbc \<Rightarrow> byte list \<Rightarrow> byte list \<Rightarrow> byte list \<times> panic option" where
  "cbcDecrypter_CryptBlocks x dst src =
     (if cbc_blockSize x = 0 then (dst, Some DivideByZero)
      else if len src smod cbc_blockSize x \<noteq> 0 then (dst, Some InputNotFullBlocks)
      else if len dst < len src then (dst, Some OutputSmallerThanInput)
      else (cbc_decrypt_loop (cbc_b x) (nat (cbc_blockSize x)) (cbc_ivec x) dst src, None))"

section \<open>AES-CBC and AES-ECB (lines 50-184)\<close>

text \<open>
  The \<^verbatim>\<open>switch c.mode\<close> of the two \<^verbatim>\<open>Encrypt\<close> methods (lines 69-76 and 137-144) and
  of the two \<^verbatim>\<open>Decrypt\<close> methods (lines 102-109 and 166-173). \<^verbatim>\<open>PaddingMode\<close> is a string
  type and the switches have no default: any other mode leaves the text as it is.
\<close>

definition pad_switch :: "PaddingMode \<Rightarrow> byte list \<Rightarrow> Block \<Rightarrow> byte list \<Rightarrow> byte list result" where
  "pad_switch mode key block plainText =
     (if mode = ZERO then ZeroPadding plainText (BlockSize block)
      else if mode = PKCS5 then PKCS5Padding plainText (BlockSize block)
      else if mode = PKCS7 then PKCS5Padding plainText (len key)
      else Inr plainText)"

definition unpad_switch :: "PaddingMode \<Rightarrow> byte list \<Rightarrow> Block \<Rightarrow> byte list \<Rightarrow> byte list result" where
  "unpad_switch mode key block plainText =
     (if mode = ZERO then Inr (ZeroUnPadding plainText)
      else if mode = PKCS5 then PKCS5Unpadding plainText (BlockSize block)
      else if mode = PKCS7 then PKCS5Unpadding plainText (len key)
      else Inr plainText)"

text \<open>A call of \<^verbatim>\<open>CryptBlocks\<close> that panics ends the method; otherwise \<open>dst\<close> is the text.\<close>

fun crypted :: "byte list \<times> panic option \<Rightarrow> byte list result" where
  "crypted (dst, None) = Inr dst"
| "crypted (dst, Some p) = Inl (Panic p)"

record cbccrypto =
  cbc_key :: "byte list"
  cbc_iv :: "byte list"
  cbc_mode :: PaddingMode

record ecbcrypto =
  ecb_key :: "byte list"
  ecb_mode :: PaddingMode

definition NewCBCCrypto :: "byte list \<Rightarrow> byte list \<Rightarrow> PaddingMode \<Rightarrow> cbccrypto" where
  "NewCBCCrypto key iv mode = \<lparr>cbc_key = key, cbc_iv = iv, cbc_mode = mode\<rparr>"

definition NewECBCrypto :: "byte list \<Rightarrow> PaddingMode \<Rightarrow> ecbcrypto" where
  "NewECBCrypto key mode = \<lparr>ecb_key = key, ecb_mode = mode\<rparr>"

definition cbc_Encrypt :: "(byte list \<Rightarrow> Block) \<Rightarrow> cbccrypto \<Rightarrow> byte list \<Rightarrow> byte list result" where
  "cbc_Encrypt aes c plainText =
     (case NewCipher aes (cbc_key c) of
        Inl err \<Rightarrow> Inl (Error err)
      | Inr block \<Rightarrow>
          if len (cbc_iv c) \<noteq> BlockSize block then Inl (Error ErrIVLength)
          else (case pad_switch (cbc_mode c) (cbc_key c) block plainText of
                  Inl f \<Rightarrow> Inl f
                | Inr padded \<Rightarrow>
                    (case NewCBCEncrypter block (cbc_iv c) of
                       Inl p \<Rightarrow> Inl (Panic p)
                     | Inr blockMode \<Rightarrow>
                         crypted (cbcEncrypter_CryptBlocks blockMode
                                    (replicate (length padded) 0) padded))))"

definition cbc_Decrypt :: "(byte list \<Rightarrow> Block) \<Rightarrow> cbccrypto \<Rightarrow> byte list \<Rightarrow> byte list result" where
  "cbc_Decrypt aes c cipherText =
     (case NewCipher aes (cbc_key c) of
        Inl err \<Rightarrow> Inl (Error err)
      | Inr block \<Rightarrow>
          if len (cbc_iv c) \<noteq> BlockSize block then Inl (Error ErrIVLength)
          else (case NewCBCDecrypter block (cbc_iv c) of
                  Inl p \<Rightarrow> Inl (Panic p)
                | Inr blockMode \<Rightarrow>
                    (case crypted (cbcDecrypter_CryptBlocks blockMode
                                     (replicate (length cipherText) 0) cipherText) of
                       Inl f \<Rightarrow> Inl f
                     | Inr plainText \<Rightarrow> unpad_switch (cbc_mode c) (cbc_key c) block plainText)))"

definition ecb_Encrypt :: "(byte list \<Rightarrow> Block) \<Rightarrow> ecbcrypto \<Rightarrow> byte list \<Rightarrow> byte list result" where
  "ecb_Encrypt aes c plainText =
     (case NewCipher aes (ecb_key c) of
        Inl err \<Rightarrow> Inl (Error err)
      | Inr block \<Rightarrow>
          (case pad_switch (ecb_mode c) (ecb_key c) block plainText of
             Inl f \<Rightarrow> Inl f
           | Inr padded \<Rightarrow>
               crypted (ecbEncrypter_CryptBlocks (NewECBEncrypter block)
                          (replicate (length padded) 0) padded)))"

definition ecb_Decrypt :: "(byte list \<Rightarrow> Block) \<Rightarrow> ecbcrypto \<Rightarrow> byte list \<Rightarrow> byte list result" where
  "ecb_Decrypt aes c cipherText =
     (case NewCipher aes (ecb_key c) of
        Inl err \<Rightarrow> Inl (Error err)
      | Inr block \<Rightarrow>
          (case crypted (ecbDecrypter_CryptBlocks (NewECBDecrypter block)
                           (replicate (length cipherText) 0) cipherText) of
             Inl f \<Rightarrow> Inl f
           | Inr plainText \<Rightarrow> unpad_switch (ecb_mode c) (ecb_key c) block plainText))"

text \<open>\<^verbatim>\<open>Decrypt(Encrypt(plainText))\<close>: a failure of \<^verbatim>\<open>Encrypt\<close> ends the round trip.\<close>

definition cbc_roundtrip :: "(byte list \<Rightarrow> Block) \<Rightarrow> cbccrypto \<Rightarrow> byte list \<Rightarrow> byte list result" where
  "cbc_roundtrip aes c plainText =
     (case cbc_Encrypt aes c plainText of
        Inl f \<Rightarrow> Inl f
      | Inr cipherText \<Rightarrow> cbc_Decrypt aes c cipherText)"

definition ecb_roundtrip :: "(byte list \<Rightarrow> Block) \<Rightarrow> ecbcrypto \<Rightarrow> byte list \<Rightarrow> byte list result" where
  "ecb_roundtrip aes c plainText =
     (case ecb_Encrypt aes c plainText of
        Inl f \<Rightarrow> Inl f
      | Inr cipherText \<Rightarrow> ecb_Decrypt aes c cipherText)"

section \<open>RSA keys (lines 186-301)\<close>

text \<open>
  \<^verbatim>\<open>encoding/pem\<close>, \<^verbatim>\<open>crypto/x509\<close>, \<^verbatim>\<open>crypto/rsa\<close> and \<^verbatim>\<open>crypto\<close> belong to the standard
  library. Their functions are parameters of the model, collected in two records. A key
  is kept as its numbers. \<^verbatim>\<open>x509.ParsePKCS8PrivateKey\<close> returns a value of interface type,
  which holds an RSA, an ECDSA, an Ed25519 or an ECDH key; \<open>NilKey\<close> is the nil
  interface value.
\<close>

datatype rsa_PrivateKey = RSAPrivateKey int int int

datatype rsa_PublicKey = RSAPublicKey int int

datatype any_key =
    NilKey
  | RSAKey rsa_PrivateKey
  | ECDSAKey "byte list"
  | Ed25519Key "byte list"
  | ECDHKey "byte list"

type_synonym PemBlockType = string

definition RSAPKCS1 :: PemBlockType where "RSAPKCS1 = ''RSA PRIVATE KEY''"
definition RSAPKCS8 :: PemBlockType where "RSAPKCS8 = ''PRIVATE KEY''"

record pem_Block =
  pem_Type :: string
  pem_Bytes :: "byte list"

record x509_lib =
  pem_Decode :: "byte list \<Rightarrow> pem_Block option"
  ParsePKCS1PrivateKey :: "byte list \<Rightarrow> error + rsa_PrivateKey"
  ParsePKCS8PrivateKey :: "byte list \<Rightarrow> error + any_key"

record PrivateKey =
  priv_key :: rsa_PrivateKey

record PublicKey =
  pub_key :: rsa_PublicKey

text \<open>
  The \<^verbatim>\<open>switch\<close> of \<^verbatim>\<open>NewPrivateKeyFromPemBlock\<close> (lines 234-239): the values of
  \<^verbatim>\<open>pk\<close> and \<^verbatim>\<open>err\<close> after it. Both stay nil for any other block type.
\<close>

definition parse_switch :: "x509_lib \<Rightarrow> pem_Block \<Rightarrow> any_key \<times> error option" where
  "parse_switch lib block =
     (if pem_Type block = RSAPKCS1 then
        (case ParsePKCS1PrivateKey lib (pem_Bytes block) of
           Inl err \<Rightarrow> (NilKey, Some err)
         | Inr k \<Rightarrow> (RSAKey k, None))
      else if pem_Type block = RSAPKCS8 then
        (case ParsePKCS8PrivateKey lib (pem_Bytes block) of
           Inl err \<Rightarrow> (NilKey, Some err)
         | Inr k \<Rightarrow> (k, None))
      else (NilKey, None))"

text \<open>
  \<^verbatim>\<open>NewPrivateKeyFromPemBlock\<close> (lines 222-246). The type assertion
  \<^verbatim>\<open>pk.(*rsa.PrivateKey)\<close> has one result, so it panics on any other value.
\<close>

definition NewPrivateKeyFromPemBlock :: "x509_lib \<Rightarrow> byte list \<Rightarrow> PrivateKey result" where
  "NewPrivateKeyFromPemBlock lib pemBlock =
     (case pem_Decode lib pemBlock of
        None \<Rightarrow> Inl (Error ErrNoPEMData)
      | Some block \<Rightarrow>
          (case parse_switch lib block of
             (pk, Some err) \<Rightarrow> Inl (Error err)
           | (pk, None) \<Rightarrow>
               (case pk of
                  RSAKey k \<Rightarrow> Inr \<lparr>priv_key = k\<rparr>
                | _ \<Rightarrow> Inl (Panic InterfaceConversion))))"

text \<open>
  \<^verbatim>\<open>crypto.Hash\<close> is an unsigned integer. \<^verbatim>\<open>hash.New()\<close> panics for a hash that is not
  linked into the binary; \<open>hash_Sum\<close> is the digest \<^verbatim>\<open>h.Sum(nil)\<close> of the data written
  to a new hash. \<^verbatim>\<open>rsa.VerifyPKCS1v15\<close> returns nil (\<open>None\<close>) or an error.
\<close>

type_synonym Hash = nat

record rsa_lib =
  hash_Available :: "Hash \<Rightarrow> bool"
  hash_Sum :: "Hash \<Rightarrow> byte list \<Rightarrow> byte list"
  SignPKCS1v15 :: "rsa_PrivateKey \<Rightarrow> Hash \<Rightarrow> byte list \<Rightarrow> error + byte list"
  VerifyPKCS1v15 :: "rsa_PublicKey \<Rightarrow> Hash \<Rightarrow> byte list \<Rightarrow> byte list \<Rightarrow> error option"

definition hash_digest :: "rsa_lib \<Rightarrow> Hash \<Rightarrow> byte list \<Rightarrow> byte list result" where
  "hash_digest lib hash data =
     (if hash_Available lib hash then Inr (hash_Sum lib hash data)
      else Inl (Panic HashNotLinked))"

text \<open>\<^verbatim>\<open>PrivateKey.Sign\<close> (lines 204-219).\<close>

definition Sign :: "rsa_lib \<Rightarrow> PrivateKey \<Rightarrow> Hash \<Rightarrow> byte list \<Rightarrow> byte list result" where
  "Sign lib pk hash data =
     (if \<not> hash_Available lib hash then Inl (Error (ErrHashUnavailable hash))
      else (case hash_digest lib hash data of
              Inl f \<Rightarrow> Inl f
            | Inr digest \<Rightarrow>
                (case SignPKCS1v15 lib (priv_key pk) hash digest of
                   Inl err \<Rightarrow> Inl (Error err)
                 | Inr signature \<Rightarrow> Inr signature)))"

text \<open>\<^verbatim>\<open>PublicKey.Verify\<close> (lines 292-301); \<open>Inr ()\<close> is the nil error.\<close>

definition Verify :: "rsa_lib \<Rightarrow> PublicKey \<Rightarrow> Hash \<Rightarrow> byte list \<Rightarrow> byte list \<Rightarrow> unit result" where
  "Verify lib pk hash data signature =
     (if \<not> hash_Available lib hash then Inl (Error (ErrHashUnavailable hash))
      else (case hash_digest lib hash data of
              Inl f \<Rightarrow> Inl f
            | Inr digest \<Rightarrow>
                (case VerifyPKCS1v15 lib (pub_key pk) hash digest signature of
                   Some err \<Rightarrow> Inl (Error err)
                 | None \<Rightarrow> Inr ())))"

section \<open>Stand-ins for the library parameters\<close>

text \<open>
  Concrete values for the parameters that stand for the standard library. They show
  that the hypotheses of the theorems below can be met, and they fix the library's
  answers at the concrete inputs below. \<open>stub_x509\<close> reads the first byte of its input
  as the type of the PEM block (1 for \<^verbatim>\<open>RSA PRIVATE KEY\<close>, 8 for \<^verbatim>\<open>PRIVATE KEY\<close>,
  anything else for \<^verbatim>\<open>EC PRIVATE KEY\<close>) and the rest as its DER bytes; its PKCS#8
  parser answers with an ECDSA key unless the DER bytes start with 0, as
  \<^verbatim>\<open>x509.ParsePKCS8PrivateKey\<close> does for the PKCS#8 encoding of an EC key. \<open>stub_rsa\<close>
  knows one hash (5, the value of \<^verbatim>\<open>crypto.SHA256\<close>).
\<close>

definition stub_x509 :: x509_lib where
  "stub_x509 =
     \<lparr>pem_Decode = (\<lambda>bs. case bs of
          [] \<Rightarrow> None
        | t # der \<Rightarrow> Some \<lparr>pem_Type = (if t = 1 then RSAPKCS1 else if t = 8 then RSAPKCS8
                                        else ''EC PRIVATE KEY''),
                           pem_Bytes = der\<rparr>),
      ParsePKCS1PrivateKey = (\<lambda>der. if der = [] then Inl (LibraryError ''asn1: syntax error'')
                                    else Inr (RSAPrivateKey 3233 17 413)),
      ParsePKCS8PrivateKey = (\<lambda>der. case der of
          [] \<Rightarrow> Inl (LibraryError ''asn1: syntax error'')
        | a # _ \<Rightarrow> if a = 0 then Inr (RSAKey (RSAPrivateKey 3233 17 413)) else Inr (ECDSAKey der))\<rparr>"

definition stub_rsa :: rsa_lib where
  "stub_rsa =
     \<lparr>hash_Available = (\<lambda>h. h = 5),
      hash_Sum = (\<lambda>h data. rev data),
      SignPKCS1v15 = (\<lambda>k h digest. Inr (digest @ [1])),
      VerifyPKCS1v15 = (\<lambda>k h digest sig. if sig = digest @ [1] then None else Some ErrVerification)\<rparr>"

section \<open>Facts about the padding functions\<close>

lemma smod_nonneg: "0 \<le> a \<Longrightarrow> 0 < b \<Longrightarrow> (a::int) smod b = a mod b"
  by (simp add: signed_modulo_int_def sgn_if)

lemma ZeroPadding_pos:
  assumes "0 < bs"
  shows "ZeroPadding xs bs = Inr (xs @ replicate (nat (bs - len xs mod bs)) 0)"
proof -
  define r where "r = len xs mod bs"
  have "len xs smod bs = r" "0 \<le> r" "r < bs"
    using assms by (simp_all add: smod_nonneg r_def)
  then show ?thesis
    using assms unfolding ZeroPadding_def Let_def r_def [symmetric] by simp
qed

lemma PKCS5Padding_pos:
  assumes "0 < bs"
  shows "PKCS5Padding xs bs =
     Inr (xs @ replicate (nat (bs - len xs mod bs)) (word_of_int (bs - len xs mod bs)))"
proof -
  define r where "r = len xs mod bs"
  have "len xs smod bs = r" "0 \<le> r" "r < bs"
    using assms by (simp_all add: smod_nonneg r_def)
  then show ?thesis
    using assms unfolding PKCS5Padding_def Let_def r_def [symmetric] by simp
qed

lemma PKCS5Unpadding_nonempty:
  assumes "xs \<noteq> []"
  shows "PKCS5Unpadding xs bs =
    (let u = (if uint (last xs) < 1 \<or> uint (last xs) > bs then 0 else uint (last xs)) in
     if len xs < u then Inl (Panic SliceBoundsOutOfRange) else Inr (take (length xs - nat u) xs))"
proof -
  have "nat (len xs - 1) = length xs - 1" by linarith
  then have l: "xs ! nat (len xs - 1) = last xs" using assms
    by (simp add: last_conv_nth)
  have n: "\<not> len xs - 1 < 0" using assms by (cases xs) simp_all
  have t: "\<And>u. 0 \<le> u \<Longrightarrow> nat (len xs - u) = length xs - nat u" by linarith
  show ?thesis
    unfolding PKCS5Unpadding_def Let_def l using n
    by (auto simp: t)
qed

lemma PKCS5Unpadding_strip:
  assumes "1 \<le> n" "n \<le> bs" "n < 256"
  shows "PKCS5Unpadding (xs @ replicate (nat n) (word_of_int n)) bs = Inr xs"
proof -
  have u: "uint (word_of_int n :: byte) = n" using assms by (simp add: uint_word_of_int)
  have ne: "replicate (nat n) (word_of_int n :: byte) \<noteq> []" using assms by simp
  have la: "last (xs @ replicate (nat n) (word_of_int n :: byte)) = word_of_int n"
    using ne assms by simp
  have ne': "xs @ replicate (nat n) (word_of_int n :: byte) \<noteq> []" using ne by simp
  show ?thesis
    unfolding PKCS5Unpadding_nonempty [OF ne'] la u Let_def using assms by simp
qed

lemma TrimRightZero_append_zeros: "TrimRightZero (xs @ replicate n 0) = TrimRightZero xs"
proof (induction xs)
  case Nil
  show ?case by (induction n) (simp_all add: Let_def)
next
  case (Cons x xs)
  then show ?case by (simp add: Let_def)
qed

lemma TrimRightZero_id: "TrimRightZero xs = xs \<longleftrightarrow> xs = [] \<or> last xs \<noteq> 0"
  by (induction xs) (auto simp: Let_def)

lemma TrimRightZero_decomp: "\<exists>n. xs = TrimRightZero xs @ replicate n 0"
proof (induction xs)
  case Nil
  then show ?case by simp
next
  case (Cons x xs)
  then obtain n where n: "xs = TrimRightZero xs @ replicate n 0" by blast
  show ?case
  proof (cases "TrimRightZero xs = [] \<and> x = 0")
    case True
    with n have "x # xs = TrimRightZero (x # xs) @ replicate (Suc n) 0" by simp
    then show ?thesis by blast
  next
    case False
    with n have "x # xs = TrimRightZero (x # xs) @ replicate n 0" by (auto simp: Let_def)
    then show ?thesis by blast
  qed
qed

lemma TrimRightZero_last: "TrimRightZero xs \<noteq> [] \<Longrightarrow> last (TrimRightZero xs) \<noteq> 0"
  by (induction xs) (auto simp: Let_def split: if_splits)

section \<open>The padding claims\<close>

text \<open>
  Claim C3. \<^verbatim>\<open>PKCS5Unpadding\<close>, which unpads in PKCS5 and in PKCS7 mode, returns a
  non-empty buffer unchanged when its last byte is below 1 or above the block size.
  \<^verbatim>\<open>PKCS5Padding\<close>, which pads in both modes, appends to an input whose length is a
  multiple of the block size one full block of bytes that each hold the block size, so
  never zero bytes of padding. The block size of the two modes is 16 or the key length
  (16, 24 or 32), within the range of a byte.
\<close>

theorem pkcs_unpad_fallback_pad_full_block:
  "(xs \<noteq> [] \<and> (uint (last xs) < 1 \<or> bs < uint (last xs)) \<longrightarrow> PKCS5Unpadding xs bs = Inr xs) \<and>
   (0 < blockSize \<and> blockSize < 256 \<and> len ys mod blockSize = 0 \<longrightarrow>
      PKCS5Padding ys blockSize = Inr (ys @ replicate (nat blockSize) (word_of_int blockSize)) \<and>
      uint (word_of_int blockSize :: byte) = blockSize \<and> 0 < nat blockSize)"
proof (intro conjI impI)
  assume "xs \<noteq> [] \<and> (uint (last xs) < 1 \<or> bs < uint (last xs))"
  then show "PKCS5Unpadding xs bs = Inr xs"
    by (simp add: PKCS5Unpadding_nonempty)
next
  assume a: "0 < blockSize \<and> blockSize < 256 \<and> len ys mod blockSize = 0"
  then show "PKCS5Padding ys blockSize = Inr (ys @ replicate (nat blockSize) (word_of_int blockSize))"
    by (simp add: PKCS5Padding_pos)
  from a show "uint (word_of_int blockSize :: byte) = blockSize"
    by (simp add: uint_word_of_int)
  from a show "0 < nat blockSize" by simp
qed

theorem pkcs_unpad_fallback_pad_full_block_witness:
  "PKCS5Unpadding [1, 2, 0] 16 = Inr [1, 2, 0] \<and>
   PKCS5Unpadding [1, 2, 17] 16 = Inr [1, 2, 17] \<and>
   PKCS5Padding (replicate 16 7) 16 = Inr (replicate 16 7 @ replicate 16 16)"
  using pkcs_unpad_fallback_pad_full_block [of "[1, 2, 0]" 16 16 "replicate 16 7"]
    pkcs_unpad_fallback_pad_full_block [of "[1, 2, 17]" 16 16 "replicate 16 7"]
  by simp

text \<open>
  Claim C4. In Zero mode the block size is 16. \<^verbatim>\<open>ZeroPadding\<close> appends
  \<open>blockSize - (len mod blockSize)\<close> zero bytes, a full block when the input is
  block-aligned. \<^verbatim>\<open>ZeroUnPadding\<close> strips every trailing zero byte: what it removes is
  zero bytes only, what it leaves does not end in a zero byte, and zero bytes that end
  the plaintext go with the padding.
\<close>

theorem zero_pad_and_unpad:
  "(0 < bs \<longrightarrow> ZeroPadding xs bs = Inr (xs @ replicate (nat (bs - len xs mod bs)) 0)) \<and>
   (0 < bs \<and> len xs mod bs = 0 \<longrightarrow> ZeroPadding xs bs = Inr (xs @ replicate (nat bs) 0)) \<and>
   (\<exists>k. ys = ZeroUnPadding ys @ replicate k 0) \<and>
   (ZeroUnPadding ys \<noteq> [] \<longrightarrow> last (ZeroUnPadding ys) \<noteq> 0) \<and>
   ZeroUnPadding (ys @ replicate n 0) = ZeroUnPadding ys"
  using TrimRightZero_decomp [of ys] TrimRightZero_last [of ys]
  by (simp add: ZeroPadding_pos ZeroUnPadding_def TrimRightZero_append_zeros)

theorem zero_pad_and_unpad_witness:
  "ZeroPadding [1, 2, 3] 16 = Inr ([1, 2, 3] @ replicate 13 0) \<and>
   ZeroPadding (replicate 16 9) 16 = Inr (replicate 16 9 @ replicate 16 0) \<and>
   ZeroUnPadding [5, 0, 7, 0, 0] = [5, 0, 7] \<and>
   last (ZeroUnPadding [5, 0, 7, 0, 0]) \<noteq> 0"
  using zero_pad_and_unpad [of 16 "[1, 2, 3]" "[5, 0, 7, 0, 0]" 0]
    zero_pad_and_unpad [of 16 "replicate 16 9" "[5, 0, 7, 0, 0]" 0]
  by (simp add: ZeroUnPadding_def)

section \<open>Facts about the block modes\<close>

declare ecb_encrypt_loop.simps [simp del] ecb_decrypt_loop.simps [simp del]
  cbc_encrypt_loop.simps [simp del] cbc_decrypt_loop.simps [simp del]

lemma xor_bytes_length: "length (xor_bytes xs ys) = min (length xs) (length ys)"
  by (simp add: xor_bytes_def)

lemma xor_bytes_cancel: "length xs = length ys \<Longrightarrow> xor_bytes (xor_bytes xs ys) ys = xs"
  unfolding xor_bytes_def
  by (induction xs ys rule: list_induct2) (simp_all add: xor.assoc)

lemma ecb_encrypt_loop_Nil: "ecb_encrypt_loop x dst [] = dst"
  by (simp add: ecb_encrypt_loop.simps [of x dst "[]"])

lemma ecb_decrypt_loop_Nil: "ecb_decrypt_loop x dst [] = dst"
  by (simp add: ecb_decrypt_loop.simps [of x dst "[]"])

lemma cbc_encrypt_loop_Nil: "cbc_encrypt_loop b bs iv dst [] = dst"
  by (simp add: cbc_encrypt_loop.simps [of b bs iv dst "[]"])

lemma cbc_decrypt_loop_Nil: "cbc_decrypt_loop b bs iv dst [] = dst"
  by (simp add: cbc_decrypt_loop.simps [of b bs iv dst "[]"])

text \<open>The ECB loops overwrite \<open>dst\<close> block by block and leave the rest of it.\<close>

lemma ecb_encrypt_loop_blocks:
  assumes "block_contract (ecb_b x)" "ecb_blockSize x = 16"
  shows "length src = k * 16 \<Longrightarrow> length src \<le> length dst \<Longrightarrow>
     length (ecb_encrypt_loop x dst src) = length dst \<and>
     drop (length src) (ecb_encrypt_loop x dst src) = drop (length src) dst \<and>
     (\<forall>i<k. take 16 (drop (i * 16) (ecb_encrypt_loop x dst src))
             = Encrypt (ecb_b x) (take 16 (drop (i * 16) src)))"
proof (induction k arbitrary: src dst)
  case 0
  then show ?case by (simp add: ecb_encrypt_loop_Nil)
next
  case (Suc k)
  let ?c = "Encrypt (ecb_b x) (take 16 src)"
  let ?r = "ecb_encrypt_loop x (drop 16 dst) (drop 16 src)"
  have e: "ecb_encrypt_loop x dst src = ?c @ ?r"
    using Suc.prems assms by (simp add: ecb_encrypt_loop.simps [of x dst src])
  have lc: "length ?c = 16" using assms Suc.prems by (simp add: block_contract_def)
  have ih: "length ?r = length (drop 16 dst) \<and>
     drop (length (drop 16 src)) ?r = drop (length (drop 16 src)) (drop 16 dst) \<and>
     (\<forall>i<k. take 16 (drop (i * 16) ?r) = Encrypt (ecb_b x) (take 16 (drop (i * 16) (drop 16 src))))"
    using Suc.prems by (intro Suc.IH) simp_all
  have 1: "length (ecb_encrypt_loop x dst src) = length dst"
    using ih lc Suc.prems by (simp add: e)
  have 2: "drop (length src) (ecb_encrypt_loop x dst src) = drop (length src) dst"
    using ih lc Suc.prems by (simp add: e add.commute)
  have 3: "take 16 (drop (i * 16) (ecb_encrypt_loop x dst src))
             = Encrypt (ecb_b x) (take 16 (drop (i * 16) src))" if "i < Suc k" for i
  proof (cases i)
    case 0
    then show ?thesis using lc by (simp add: e)
  next
    case (Suc j)
    then have "j < k" using that by simp
    then have "take 16 (drop (j * 16) ?r) = Encrypt (ecb_b x) (take 16 (drop (j * 16) (drop 16 src)))"
      using ih by blast
    then show ?thesis using lc Suc by (simp add: e add.commute)
  qed
  show ?case using 1 2 3 by blast
qed

lemma ecb_decrypt_loop_blocks:
  assumes "block_contract (ecb_b x)" "ecb_blockSize x = 16"
  shows "length src = k * 16 \<Longrightarrow> length src \<le> length dst \<Longrightarrow>
     length (ecb_decrypt_loop x dst src) = length dst \<and>
     drop (length src) (ecb_decrypt_loop x dst src) = drop (length src) dst \<and>
     (\<forall>i<k. take 16 (drop (i * 16) (ecb_decrypt_loop x dst src))
             = Decrypt (ecb_b x) (take 16 (drop (i * 16) src)))"
proof (induction k arbitrary: src dst)
  case 0
  then show ?case by (simp add: ecb_decrypt_loop_Nil)
next
  case (Suc k)
  let ?c = "Decrypt (ecb_b x) (take 16 src)"
  let ?r = "ecb_decrypt_loop x (drop 16 dst) (drop 16 src)"
  have e: "ecb_decrypt_loop x dst src = ?c @ ?r"
    using Suc.prems assms by (simp add: ecb_decrypt_loop.simps [of x dst src])
  have lc: "length ?c = 16" using assms Suc.prems by (simp add: block_contract_def)
  have ih: "length ?r = length (drop 16 dst) \<and>
     drop (length (drop 16 src)) ?r = drop (length (drop 16 src)) (drop 16 dst) \<and>
     (\<forall>i<k. take 16 (drop (i * 16) ?r) = Decrypt (ecb_b x) (take 16 (drop (i * 16) (drop 16 src))))"
    using Suc.prems by (intro Suc.IH) simp_all
  have 1: "length (ecb_decrypt_loop x dst src) = length dst"
    using ih lc Suc.prems by (simp add: e)
  have 2: "drop (length src) (ecb_decrypt_loop x dst src) = drop (length src) dst"
    using ih lc Suc.prems by (simp add: e add.commute)
  have 3: "take 16 (drop (i * 16) (ecb_decrypt_loop x dst src))
             = Decrypt (ecb_b x) (take 16 (drop (i * 16) src))" if "i < Suc k" for i
  proof (cases i)
    case 0
    then show ?thesis using lc by (simp add: e)
  next
    case (Suc j)
    then have "j < k" using that by simp
    then have "take 16 (drop (j * 16) ?r) = Decrypt (ecb_b x) (take 16 (drop (j * 16) (drop 16 src)))"
      using ih by blast
    then show ?thesis using lc Suc by (simp add: e add.commute)
  qed
  show ?case using 1 2 3 by blast
qed

lemma len_smod_16: "len xs smod 16 = 0 \<longleftrightarrow> length xs mod 16 = 0"
proof -
  have "len xs mod 16 = int (length xs mod 16)" by (simp add: zmod_int)
  then show ?thesis by (simp add: smod_nonneg)
qed

lemma shift_cipher_contract: "aes_contract shift_cipher"
  by (simp add: aes_contract_def block_contract_def shift_cipher_def comp_def)

text \<open>
  Claim C8. For a block cipher with 16-byte blocks, \<^verbatim>\<open>CryptBlocks\<close> of the ECB
  encrypter and of the ECB decrypter panic on an input whose length is not a multiple of
  16 and leave \<open>dst\<close> as it was: no block has been processed. On \<open>k\<close> full blocks they
  do not panic, block \<open>i\<close> of the output is the image of block \<open>i\<close> of the input alone,
  and the rest of \<open>dst\<close> is untouched.
\<close>

theorem ecb_CryptBlocks_blockwise:
  assumes "block_contract b"
  shows
   "(length src mod 16 \<noteq> 0 \<longrightarrow>
       ecbEncrypter_CryptBlocks (NewECBEncrypter b) dst src = (dst, Some InputNotFullBlocks) \<and>
       ecbDecrypter_CryptBlocks (NewECBDecrypter b) dst src = (dst, Some InputNotFullBlocks)) \<and>
    (length src = k * 16 \<and> length src \<le> length dst \<longrightarrow>
       (\<exists>out. ecbEncrypter_CryptBlocks (NewECBEncrypter b) dst src = (out, None) \<and>
          length out = length dst \<and> drop (length src) out = drop (length src) dst \<and>
          (\<forall>i<k. take 16 (drop (i * 16) out) = Encrypt b (take 16 (drop (i * 16) src)))) \<and>
       (\<exists>out. ecbDecrypter_CryptBlocks (NewECBDecrypter b) dst src = (out, None) \<and>
          length out = length dst \<and> drop (length src) out = drop (length src) dst \<and>
          (\<forall>i<k. take 16 (drop (i * 16) out) = Decrypt b (take 16 (drop (i * 16) src)))))"
proof -
  have bs: "BlockSize b = 16" using assms by (simp add: block_contract_def)
  have c: "block_contract (ecb_b (newECB b))" "ecb_blockSize (newECB b) = 16"
    using assms bs by (simp_all add: newECB_def)
  have p: "length src mod 16 \<noteq> 0 \<Longrightarrow>
       ecbEncrypter_CryptBlocks (NewECBEncrypter b) dst src = (dst, Some InputNotFullBlocks) \<and>
       ecbDecrypter_CryptBlocks (NewECBDecrypter b) dst src = (dst, Some InputNotFullBlocks)"
    using bs by (simp add: ecbEncrypter_CryptBlocks_def ecbDecrypter_CryptBlocks_def
        NewECBEncrypter_def NewECBDecrypter_def newECB_def len_smod_16)
  have q: "\<exists>out. ecbEncrypter_CryptBlocks (NewECBEncrypter b) dst src = (out, None) \<and>
          length out = length dst \<and> drop (length src) out = drop (length src) dst \<and>
          (\<forall>i<k. take 16 (drop (i * 16) out) = Encrypt b (take 16 (drop (i * 16) src)))"
    if h: "length src = k * 16 \<and> length src \<le> length dst"
  proof -
    have "length src mod 16 = 0" using h by simp
    then have "len src smod 16 = 0" by (simp only: len_smod_16)
    moreover have "length src \<le> length dst" using h by simp
    ultimately have "ecbEncrypter_CryptBlocks (NewECBEncrypter b) dst src
            = (ecb_encrypt_loop (newECB b) dst src, None)"
      using bs by (simp add: ecbEncrypter_CryptBlocks_def NewECBEncrypter_def newECB_def)
    moreover have "ecb_b (newECB b) = b" by (simp add: newECB_def)
    ultimately show ?thesis
      using ecb_encrypt_loop_blocks [OF c, of src k dst] h by simp
  qed
  have r: "\<exists>out. ecbDecrypter_CryptBlocks (NewECBDecrypter b) dst src = (out, None) \<and>
          length out = length dst \<and> drop (length src) out = drop (length src) dst \<and>
          (\<forall>i<k. take 16 (drop (i * 16) out) = Decrypt b (take 16 (drop (i * 16) src)))"
    if h: "length src = k * 16 \<and> length src \<le> length dst"
  proof -
    have "length src mod 16 = 0" using h by simp
    then have "len src smod 16 = 0" by (simp only: len_smod_16)
    moreover have "length src \<le> length dst" using h by simp
    ultimately have "ecbDecrypter_CryptBlocks (NewECBDecrypter b) dst src
            = (ecb_decrypt_loop (newECB b) dst src, None)"
      using bs by (simp add: ecbDecrypter_CryptBlocks_def NewECBDecrypter_def newECB_def)
    moreover have "ecb_b (newECB b) = b" by (simp add: newECB_def)
    ultimately show ?thesis
      using ecb_decrypt_loop_blocks [OF c, of src k dst] h by simp
  qed
  show ?thesis using p q r by blast
qed

theorem ecb_CryptBlocks_blockwise_witness:
  "block_contract (shift_cipher []) \<and>
   ecbEncrypter_CryptBlocks (NewECBEncrypter (shift_cipher [])) (replicate 17 0) (replicate 17 5)
     = (replicate 17 0, Some InputNotFullBlocks) \<and>
   ecbDecrypter_CryptBlocks (NewECBDecrypter (shift_cipher [])) (replicate 17 0) (replicate 17 5)
     = (replicate 17 0, Some InputNotFullBlocks) \<and>
   (\<exists>out. ecbEncrypter_CryptBlocks (NewECBEncrypter (shift_cipher [])) (replicate 32 0) (replicate 32 5)
           = (out, None) \<and> length out = 32 \<and>
      (\<forall>i<2. take 16 (drop (i * 16) out)
               = Encrypt (shift_cipher []) (take 16 (drop (i * 16) (replicate 32 5)))))"
proof -
  have c: "block_contract (shift_cipher [])"
    by (simp add: block_contract_def shift_cipher_def comp_def)
  show ?thesis
    using c ecb_CryptBlocks_blockwise [OF c, of "replicate 17 5" "replicate 17 0" 0]
      ecb_CryptBlocks_blockwise [OF c, of "replicate 32 5" "replicate 32 0" 2]
    by auto
qed

lemma ecb_loop_roundtrip:
  assumes "block_contract (ecb_b x)" "ecb_blockSize x = 16"
  shows "length src = k * 16 \<Longrightarrow> length dst = length src \<Longrightarrow> length dst' = length src \<Longrightarrow>
     length (ecb_encrypt_loop x dst src) = length src \<and>
     ecb_decrypt_loop x dst' (ecb_encrypt_loop x dst src) = src"
proof (induction k arbitrary: src dst dst')
  case 0
  then show ?case by (simp add: ecb_encrypt_loop_Nil ecb_decrypt_loop_Nil)
next
  case (Suc k)
  let ?c = "Encrypt (ecb_b x) (take 16 src)"
  let ?r = "ecb_encrypt_loop x (drop 16 dst) (drop 16 src)"
  have e: "ecb_encrypt_loop x dst src = ?c @ ?r"
    using Suc.prems assms by (simp add: ecb_encrypt_loop.simps [of x dst src])
  have lc: "length ?c = 16" and dc: "Decrypt (ecb_b x) ?c = take 16 src"
    using assms Suc.prems by (simp_all add: block_contract_def)
  have ih: "length ?r = length (drop 16 src) \<and> ecb_decrypt_loop x (drop 16 dst') ?r = drop 16 src"
    using Suc.prems by (intro Suc.IH) simp_all
  have "ecb_decrypt_loop x dst' (?c @ ?r) = Decrypt (ecb_b x) ?c @ ecb_decrypt_loop x (drop 16 dst') ?r"
    using lc assms by (simp add: ecb_decrypt_loop.simps [of x dst' "?c @ ?r"])
  then show ?case using ih lc dc Suc.prems by (simp add: e)
qed

lemma cbc_loop_roundtrip:
  assumes "block_contract b"
  shows "length src = k * 16 \<Longrightarrow> length dst = length src \<Longrightarrow> length dst' = length src \<Longrightarrow>
     length iv = 16 \<Longrightarrow>
     length (cbc_encrypt_loop b 16 iv dst src) = length src \<and>
     cbc_decrypt_loop b 16 iv dst' (cbc_encrypt_loop b 16 iv dst src) = src"
proof (induction k arbitrary: src dst dst' iv)
  case 0
  then show ?case by (simp add: cbc_encrypt_loop_Nil cbc_decrypt_loop_Nil)
next
  case (Suc k)
  let ?p = "xor_bytes (take 16 src) iv"
  let ?c = "Encrypt b ?p"
  let ?r = "cbc_encrypt_loop b 16 ?c (drop 16 dst) (drop 16 src)"
  have e: "cbc_encrypt_loop b 16 iv dst src = ?c @ ?r"
    using Suc.prems by (simp add: cbc_encrypt_loop.simps [of b 16 iv dst src] Let_def)
  have lp: "length ?p = 16" using Suc.prems by (simp add: xor_bytes_length)
  have lc: "length ?c = 16" and dc: "Decrypt b ?c = ?p"
    using assms lp by (simp_all add: block_contract_def)
  have x: "xor_bytes ?p iv = take 16 src"
    using Suc.prems by (intro xor_bytes_cancel) simp
  have ih: "length ?r = length (drop 16 src) \<and> cbc_decrypt_loop b 16 ?c (drop 16 dst') ?r = drop 16 src"
    using Suc.prems lc by (intro Suc.IH) simp_all
  have "cbc_decrypt_loop b 16 iv dst' (?c @ ?r)
      = xor_bytes (Decrypt b ?c) iv @ cbc_decrypt_loop b 16 ?c (drop 16 dst') ?r"
    using lc by (simp add: cbc_decrypt_loop.simps [of b 16 iv dst' "?c @ ?r"])
  then show ?case using ih lc dc x Suc.prems by (simp add: e)
qed

section \<open>Facts about Encrypt and Decrypt\<close>

lemma NewCipher_valid: "valid_key key \<Longrightarrow> NewCipher aes key = Inr (aes key)"
  by (auto simp: NewCipher_def valid_key_def)

lemma NewCipher_invalid: "\<not> valid_key key \<Longrightarrow> NewCipher aes key = Inl (KeySizeError (len key))"
  by (auto simp: NewCipher_def valid_key_def)

lemma contract_block: "aes_contract aes \<Longrightarrow> valid_key key \<Longrightarrow> block_contract (aes key)"
  by (simp add: aes_contract_def)

lemma contract_BlockSize: "aes_contract aes \<Longrightarrow> valid_key key \<Longrightarrow> BlockSize (aes key) = 16"
  by (simp add: aes_contract_def block_contract_def)

lemma modes_distinct [simp]:
  "ZERO \<noteq> PKCS5" "ZERO \<noteq> PKCS7" "PKCS5 \<noteq> PKCS7" "PKCS5 \<noteq> ZERO" "PKCS7 \<noteq> ZERO" "PKCS7 \<noteq> PKCS5"
  by (simp_all add: ZERO_def PKCS5_def PKCS7_def)

text \<open>With a valid key and IV: the padding, the length check of \<^verbatim>\<open>CryptBlocks\<close>, the loop.\<close>

lemma cbc_Encrypt_valid:
  assumes "aes_contract aes" "valid_key (cbc_key c)" "length (cbc_iv c) = 16"
  shows "cbc_Encrypt aes c p =
    (case pad_switch (cbc_mode c) (cbc_key c) (aes (cbc_key c)) p of
       Inl f \<Rightarrow> Inl f
     | Inr padded \<Rightarrow>
         if length padded mod 16 \<noteq> 0 then Inl (Panic InputNotFullBlocks)
         else Inr (cbc_encrypt_loop (aes (cbc_key c)) 16 (cbc_iv c) (replicate (length padded) 0) padded))"
  using assms
  by (simp add: cbc_Encrypt_def NewCipher_valid contract_BlockSize NewCBCEncrypter_def newCBC_def
      cbcEncrypter_CryptBlocks_def len_smod_16 split: sum.splits)

lemma ecb_Encrypt_valid:
  assumes "aes_contract aes" "valid_key (ecb_key c)"
  shows "ecb_Encrypt aes c p =
    (case pad_switch (ecb_mode c) (ecb_key c) (aes (ecb_key c)) p of
       Inl f \<Rightarrow> Inl f
     | Inr padded \<Rightarrow>
         if length padded mod 16 \<noteq> 0 then Inl (Panic InputNotFullBlocks)
         else Inr (ecb_encrypt_loop (newECB (aes (ecb_key c))) (replicate (length padded) 0) padded))"
  using assms
  by (simp add: ecb_Encrypt_def NewCipher_valid contract_BlockSize NewECBEncrypter_def newECB_def
      ecbEncrypter_CryptBlocks_def len_smod_16 split: sum.splits)

lemma cbc_Decrypt_valid:
  assumes "aes_contract aes" "valid_key (cbc_key c)" "length (cbc_iv c) = 16"
  shows "cbc_Decrypt aes c ct =
    (if length ct mod 16 \<noteq> 0 then Inl (Panic InputNotFullBlocks)
     else unpad_switch (cbc_mode c) (cbc_key c) (aes (cbc_key c))
            (cbc_decrypt_loop (aes (cbc_key c)) 16 (cbc_iv c) (replicate (length ct) 0) ct))"
  using assms
  by (simp add: cbc_Decrypt_def NewCipher_valid contract_BlockSize NewCBCDecrypter_def newCBC_def
      cbcDecrypter_CryptBlocks_def len_smod_16 split: sum.splits)

lemma ecb_Decrypt_valid:
  assumes "aes_contract aes" "valid_key (ecb_key c)"
  shows "ecb_Decrypt aes c ct =
    (if length ct mod 16 \<noteq> 0 then Inl (Panic InputNotFullBlocks)
     else unpad_switch (ecb_mode c) (ecb_key c) (aes (ecb_key c))
            (ecb_decrypt_loop (newECB (aes (ecb_key c))) (replicate (length ct) 0) ct))"
  using assms
  by (simp add: ecb_Decrypt_def NewCipher_valid contract_BlockSize NewECBDecrypter_def newECB_def
      ecbDecrypter_CryptBlocks_def len_smod_16 split: sum.splits)

lemma mod_16_mult: "(n::nat) mod 16 = 0 \<Longrightarrow> \<exists>k. n = k * 16"
  by presburger

lemma cbc_Encrypt_length:
  assumes "aes_contract aes" "valid_key (cbc_key c)" "length (cbc_iv c) = 16"
    and "pad_switch (cbc_mode c) (cbc_key c) (aes (cbc_key c)) p = Inr padded"
    and "length padded mod 16 = 0"
  shows "\<exists>ct. cbc_Encrypt aes c p = Inr ct \<and> length ct = length padded"
proof -
  obtain k where k: "length padded = k * 16" using mod_16_mult [OF assms(5)] by auto
  let ?ct = "cbc_encrypt_loop (aes (cbc_key c)) 16 (cbc_iv c) (replicate (length padded) 0) padded"
  have "length ?ct = length padded \<and>
     cbc_decrypt_loop (aes (cbc_key c)) 16 (cbc_iv c) (replicate (length padded) 0) ?ct = padded"
    using k assms(3) by (intro cbc_loop_roundtrip [OF contract_block [OF assms(1,2)]]) simp_all
  moreover have "cbc_Encrypt aes c p = Inr ?ct"
    using assms(4,5) by (simp add: cbc_Encrypt_valid [OF assms(1-3)])
  ultimately show ?thesis by blast
qed

lemma cbc_roundtrip_unpad:
  assumes "aes_contract aes" "valid_key (cbc_key c)" "length (cbc_iv c) = 16"
    and "pad_switch (cbc_mode c) (cbc_key c) (aes (cbc_key c)) p = Inr padded"
    and "length padded mod 16 = 0"
  shows "cbc_roundtrip aes c p = unpad_switch (cbc_mode c) (cbc_key c) (aes (cbc_key c)) padded"
proof -
  obtain k where k: "length padded = k * 16" using mod_16_mult [OF assms(5)] by auto
  let ?ct = "cbc_encrypt_loop (aes (cbc_key c)) 16 (cbc_iv c) (replicate (length padded) 0) padded"
  have rt: "length ?ct = length padded \<and>
     cbc_decrypt_loop (aes (cbc_key c)) 16 (cbc_iv c) (replicate (length padded) 0) ?ct = padded"
    using k assms(3) by (intro cbc_loop_roundtrip [OF contract_block [OF assms(1,2)]]) simp_all
  then have l: "length ?ct = length padded"
    and d: "cbc_decrypt_loop (aes (cbc_key c)) 16 (cbc_iv c) (replicate (length padded) 0) ?ct = padded"
    by blast+
  have enc: "cbc_Encrypt aes c p = Inr ?ct"
    using assms(4,5) by (simp add: cbc_Encrypt_valid [OF assms(1-3)])
  have "cbc_Decrypt aes c ?ct = unpad_switch (cbc_mode c) (cbc_key c) (aes (cbc_key c)) padded"
    unfolding cbc_Decrypt_valid [OF assms(1-3)] l d using assms(5) by simp
  then show ?thesis
    unfolding cbc_roundtrip_def enc by simp
qed

lemma ecb_roundtrip_unpad:
  assumes "aes_contract aes" "valid_key (ecb_key c)"
    and "pad_switch (ecb_mode c) (ecb_key c) (aes (ecb_key c)) p = Inr padded"
    and "length padded mod 16 = 0"
  shows "ecb_roundtrip aes c p = unpad_switch (ecb_mode c) (ecb_key c) (aes (ecb_key c)) padded"
proof -
  obtain k where k: "length padded = k * 16" using mod_16_mult [OF assms(4)] by auto
  let ?x = "newECB (aes (ecb_key c))"
  let ?ct = "ecb_encrypt_loop ?x (replicate (length padded) 0) padded"
  have "block_contract (ecb_b ?x)" "ecb_blockSize ?x = 16"
    using contract_block [OF assms(1,2)] contract_BlockSize [OF assms(1,2)]
    by (simp_all add: newECB_def)
  then have rt: "length ?ct = length padded \<and>
     ecb_decrypt_loop ?x (replicate (length padded) 0) ?ct = padded"
    using k by (intro ecb_loop_roundtrip) simp_all
  then have l: "length ?ct = length padded"
    and d: "ecb_decrypt_loop ?x (replicate (length padded) 0) ?ct = padded"
    by blast+
  have enc: "ecb_Encrypt aes c p = Inr ?ct"
    using assms(3,4) by (simp add: ecb_Encrypt_valid [OF assms(1,2)])
  have "ecb_Decrypt aes c ?ct = unpad_switch (ecb_mode c) (ecb_key c) (aes (ecb_key c)) padded"
    unfolding ecb_Decrypt_valid [OF assms(1,2)] l d using assms(4) by simp
  then show ?thesis
    unfolding ecb_roundtrip_def enc by simp
qed

text \<open>What the switch of \<^verbatim>\<open>Encrypt\<close> yields in each mode.\<close>

lemma pad_count:
  assumes "0 < b"
  shows "nat (int b - len xs mod int b) = b - length xs mod b"
    and "int b - len xs mod int b = int (b - length xs mod b)"
proof -
  have "len xs mod int b = int (length xs mod b)" by (simp add: zmod_int)
  moreover have "length xs mod b < b" using assms by simp
  ultimately show "nat (int b - len xs mod int b) = b - length xs mod b"
    and "int b - len xs mod int b = int (b - length xs mod b)" by linarith+
qed

lemma PKCS5Padding_nat:
  assumes "0 < b"
  shows "PKCS5Padding xs (int b) =
     Inr (xs @ replicate (b - length xs mod b) (of_nat (b - length xs mod b)))"
  using assms by (simp add: PKCS5Padding_pos pad_count [OF assms])

lemma pad_switch_ZERO:
  assumes "BlockSize blk = 16"
  shows "pad_switch ZERO key blk p = Inr (p @ replicate (16 - length p mod 16) 0)"
  using assms pad_count(1) [of 16 p] by (simp add: pad_switch_def ZeroPadding_pos)

lemma pad_switch_PKCS5:
  "BlockSize blk = 16 \<Longrightarrow>
   pad_switch PKCS5 key blk p = Inr (p @ replicate (16 - length p mod 16) (of_nat (16 - length p mod 16)))"
  using PKCS5Padding_nat [of 16 p] by (simp add: pad_switch_def)

lemma pad_switch_PKCS7:
  "key \<noteq> [] \<Longrightarrow>
   pad_switch PKCS7 key blk p =
     Inr (p @ replicate (length key - length p mod length key) (of_nat (length key - length p mod length key)))"
  using PKCS5Padding_nat [of "length key" p] by (simp add: pad_switch_def)

lemma PKCS5Unpadding_nat:
  assumes "1 \<le> n" "n \<le> b" "n < 256"
  shows "PKCS5Unpadding (xs @ replicate n (of_nat n)) (int b) = Inr xs"
  using PKCS5Unpadding_strip [of "int n" "int b" xs] assms by simp

lemma padded_length_mod: "0 < b \<Longrightarrow> (n + (b - n mod b)) mod b = (0::nat)"
  by (metis add_diff_inverse_nat mod_add_left_eq mod_less_divisor mod_self nat_less_le not_less)

lemma valid_key_cases: "valid_key key \<Longrightarrow> length key = 16 \<or> length key = 24 \<or> length key = 32"
  by (simp add: valid_key_def)

lemma valid_key_nonempty: "valid_key key \<Longrightarrow> key \<noteq> []"
  by (auto simp: valid_key_def)

section \<open>The claims about Encrypt and Decrypt\<close>

text \<open>
  Claim C2. With a valid key and a 16-byte IV, \<^verbatim>\<open>Encrypt\<close> in PKCS5 mode is the
  block-mode encryption of the plaintext followed by \<open>n\<close> bytes of value \<open>n\<close>, where
  \<open>n = 16 - len mod 16\<close> is at least 1: the padded text is a multiple of the 16-byte
  block size of the cipher. In PKCS7 mode the same holds with the key length (16, 24 or
  32) in place of 16: the padded text is a multiple of the key length. Both hold for the
  CBC and for the ECB variant.
\<close>

theorem pkcs5_pads_to_block_pkcs7_to_key_length:
  assumes "aes_contract aes" "valid_key key" "length iv = 16"
  shows
   "(let n = 16 - length p mod 16; padded = p @ replicate n (of_nat n) in
       0 < n \<and> length padded mod 16 = 0 \<and>
       cbc_Encrypt aes \<lparr>cbc_key = key, cbc_iv = iv, cbc_mode = PKCS5\<rparr> p
         = crypted (cbcEncrypter_CryptBlocks \<lparr>cbc_b = aes key, cbc_blockSize = 16, cbc_ivec = iv\<rparr>
                      (replicate (length padded) 0) padded) \<and>
       ecb_Encrypt aes \<lparr>ecb_key = key, ecb_mode = PKCS5\<rparr> p
         = crypted (ecbEncrypter_CryptBlocks \<lparr>ecb_b = aes key, ecb_blockSize = 16\<rparr>
                      (replicate (length padded) 0) padded)) \<and>
    (let n = length key - length p mod length key; padded = p @ replicate n (of_nat n) in
       0 < n \<and> length padded mod length key = 0 \<and>
       cbc_Encrypt aes \<lparr>cbc_key = key, cbc_iv = iv, cbc_mode = PKCS7\<rparr> p
         = crypted (cbcEncrypter_CryptBlocks \<lparr>cbc_b = aes key, cbc_blockSize = 16, cbc_ivec = iv\<rparr>
                      (replicate (length padded) 0) padded) \<and>
       ecb_Encrypt aes \<lparr>ecb_key = key, ecb_mode = PKCS7\<rparr> p
         = crypted (ecbEncrypter_CryptBlocks \<lparr>ecb_b = aes key, ecb_blockSize = 16\<rparr>
                      (replicate (length padded) 0) padded))"
proof -
  have bs: "BlockSize (aes key) = 16" using assms by (simp add: contract_BlockSize)
  have kpos: "0 < length key" "key \<noteq> []" using assms(2) by (auto simp: valid_key_def)
  have nc: "NewCipher aes key = Inr (aes key)" using assms(2) by (rule NewCipher_valid)
  define n5 where "n5 = 16 - length p mod 16"
  define n7 where "n7 = length key - length p mod length key"
  have 5: "pad_switch PKCS5 key (aes key) p = Inr (p @ replicate n5 (of_nat n5))"
    unfolding n5_def using bs by (rule pad_switch_PKCS5)
  have 7: "pad_switch PKCS7 key (aes key) p = Inr (p @ replicate n7 (of_nat n7))"
    unfolding n7_def using kpos(2) by (rule pad_switch_PKCS7)
  have l5: "length (p @ replicate n5 (of_nat n5 :: byte)) mod 16 = 0"
    using padded_length_mod [of 16 "length p"] by (simp add: n5_def)
  have l7: "length (p @ replicate n7 (of_nat n7 :: byte)) mod length key = 0"
    using padded_length_mod [OF kpos(1), of "length p"] by (simp add: n7_def)
  have p5: "0 < n5" by (simp add: n5_def)
  have p7: "0 < n7" using kpos(1) by (simp add: n7_def)
  have e: "cbc_Encrypt aes \<lparr>cbc_key = key, cbc_iv = iv, cbc_mode = m\<rparr> p
      = (case pad_switch m key (aes key) p of Inl f \<Rightarrow> Inl f
         | Inr padded \<Rightarrow> crypted (cbcEncrypter_CryptBlocks
             \<lparr>cbc_b = aes key, cbc_blockSize = 16, cbc_ivec = iv\<rparr>
             (replicate (length padded) 0) padded))"
     "ecb_Encrypt aes \<lparr>ecb_key = key, ecb_mode = m\<rparr> p
      = (case pad_switch m key (aes key) p of Inl f \<Rightarrow> Inl f
         | Inr padded \<Rightarrow> crypted (ecbEncrypter_CryptBlocks
             \<lparr>ecb_b = aes key, ecb_blockSize = 16\<rparr>
             (replicate (length padded) 0) padded))" for m
    using assms(3) bs
    by (simp_all add: cbc_Encrypt_def ecb_Encrypt_def nc NewCBCEncrypter_def newCBC_def
        NewECBEncrypter_def newECB_def split: sum.splits)
  show ?thesis
    unfolding Let_def n5_def [symmetric] n7_def [symmetric] e 5 7
    using l5 l7 p5 p7 by simp
qed

theorem pkcs5_pads_to_block_pkcs7_to_key_length_witness:
  "aes_contract shift_cipher \<and> valid_key (replicate 32 1) \<and>
   (let padded = [7, 8, 9] @ replicate 13 13 in
    cbc_Encrypt shift_cipher \<lparr>cbc_key = replicate 32 1, cbc_iv = replicate 16 2, cbc_mode = PKCS5\<rparr> [7, 8, 9]
      = crypted (cbcEncrypter_CryptBlocks
          \<lparr>cbc_b = shift_cipher (replicate 32 1), cbc_blockSize = 16, cbc_ivec = replicate 16 2\<rparr>
          (replicate (length padded) 0) padded)) \<and>
   (let padded = [7, 8, 9] @ replicate 29 29 in
    ecb_Encrypt shift_cipher \<lparr>ecb_key = replicate 32 1, ecb_mode = PKCS7\<rparr> [7, 8, 9]
      = crypted (ecbEncrypter_CryptBlocks
          \<lparr>ecb_b = shift_cipher (replicate 32 1), ecb_blockSize = 16\<rparr>
          (replicate (length padded) 0) padded))"
proof -
  have v: "valid_key (replicate 32 1)" by (simp add: valid_key_def)
  have i: "length (replicate 16 (2::byte)) = 16" by simp
  have n5: "16 - length [7, 8, 9 :: byte] mod 16 = 13" by simp
  have n7: "length (replicate 32 (1::byte)) - length [7, 8, 9 :: byte] mod length (replicate 32 (1::byte)) = 29"
    by simp
  note t = pkcs5_pads_to_block_pkcs7_to_key_length [OF shift_cipher_contract v i, of "[7, 8, 9]"]
  show ?thesis
    unfolding Let_def
    using shift_cipher_contract v t [unfolded Let_def n5 n7 of_nat_numeral]
    by blast
qed

text \<open>
  Claim C5, amended. For CBC \<^verbatim>\<open>Encrypt\<close> and \<^verbatim>\<open>Decrypt\<close>: a key whose length is not 16,
  24 or 32 gives the \<^verbatim>\<open>KeySizeError\<close> of \<^verbatim>\<open>aes.NewCipher\<close>; with a valid key, an IV
  whose length is not 16 gives the error \<^verbatim>\<open>IV length must equal block size\<close>, whatever
  the data, so before any padding or block operation. With a valid key and IV,
  \<^verbatim>\<open>Encrypt\<close> returns a ciphertext of the length of the padded plaintext whenever that
  length is a multiple of 16; it always is in Zero and PKCS5 mode, and in PKCS7 mode with
  a key of 16 or 32 bytes.
\<close>

theorem cbc_errors_and_ciphertext_length:
  assumes "aes_contract aes"
  shows
   "(\<not> valid_key (cbc_key c) \<longrightarrow>
       cbc_Encrypt aes c txt = Inl (Error (KeySizeError (len (cbc_key c)))) \<and>
       cbc_Decrypt aes c txt = Inl (Error (KeySizeError (len (cbc_key c))))) \<and>
    (valid_key (cbc_key c) \<and> length (cbc_iv c) \<noteq> 16 \<longrightarrow>
       cbc_Encrypt aes c txt = Inl (Error ErrIVLength) \<and>
       cbc_Decrypt aes c txt = Inl (Error ErrIVLength)) \<and>
    (valid_key (cbc_key c) \<and> length (cbc_iv c) = 16 \<and>
     pad_switch (cbc_mode c) (cbc_key c) (aes (cbc_key c)) txt = Inr padded \<and>
     length padded mod 16 = 0 \<longrightarrow>
       (\<exists>ct. cbc_Encrypt aes c txt = Inr ct \<and> length ct = length padded)) \<and>
    (valid_key (cbc_key c) \<and> length (cbc_iv c) = 16 \<and>
     (cbc_mode c = ZERO \<or> cbc_mode c = PKCS5 \<or> (cbc_mode c = PKCS7 \<and> length (cbc_key c) \<noteq> 24)) \<longrightarrow>
       (\<exists>pt ct. pad_switch (cbc_mode c) (cbc_key c) (aes (cbc_key c)) txt = Inr pt \<and>
          length pt mod 16 = 0 \<and> cbc_Encrypt aes c txt = Inr ct \<and> length ct = length pt))"
proof (intro conjI impI)
  assume "\<not> valid_key (cbc_key c)"
  then show "cbc_Encrypt aes c txt = Inl (Error (KeySizeError (len (cbc_key c))))"
    and "cbc_Decrypt aes c txt = Inl (Error (KeySizeError (len (cbc_key c))))"
    by (simp_all add: cbc_Encrypt_def cbc_Decrypt_def NewCipher_invalid)
next
  assume a: "valid_key (cbc_key c) \<and> length (cbc_iv c) \<noteq> 16"
  then have "BlockSize (aes (cbc_key c)) = 16" using assms by (simp add: contract_BlockSize)
  with a show "cbc_Encrypt aes c txt = Inl (Error ErrIVLength)"
    and "cbc_Decrypt aes c txt = Inl (Error ErrIVLength)"
    by (simp_all add: cbc_Encrypt_def cbc_Decrypt_def NewCipher_valid)
next
  assume "valid_key (cbc_key c) \<and> length (cbc_iv c) = 16 \<and>
     pad_switch (cbc_mode c) (cbc_key c) (aes (cbc_key c)) txt = Inr padded \<and>
     length padded mod 16 = 0"
  then show "\<exists>ct. cbc_Encrypt aes c txt = Inr ct \<and> length ct = length padded"
    by (intro cbc_Encrypt_length [OF assms]) simp_all
next
  assume a: "valid_key (cbc_key c) \<and> length (cbc_iv c) = 16 \<and>
     (cbc_mode c = ZERO \<or> cbc_mode c = PKCS5 \<or> (cbc_mode c = PKCS7 \<and> length (cbc_key c) \<noteq> 24))"
  then have bs: "BlockSize (aes (cbc_key c)) = 16" using assms by (simp add: contract_BlockSize)
  have ne: "cbc_key c \<noteq> []" using a by (auto simp: valid_key_def)
  have "\<exists>pt. pad_switch (cbc_mode c) (cbc_key c) (aes (cbc_key c)) txt = Inr pt \<and>
          length pt mod 16 = 0"
  proof -
    consider "cbc_mode c = ZERO" | "cbc_mode c = PKCS5"
      | "cbc_mode c = PKCS7" "length (cbc_key c) = 16"
      | "cbc_mode c = PKCS7" "length (cbc_key c) = 32"
      using a by (auto simp: valid_key_def)
    then show ?thesis
    proof cases
      case 1
      then show ?thesis
        using padded_length_mod [of 16 "length txt"] by (simp add: pad_switch_ZERO [OF bs])
    next
      case 2
      then show ?thesis
        using padded_length_mod [of 16 "length txt"] by (simp add: pad_switch_PKCS5 [OF bs])
    next
      case 3
      then show ?thesis
        using padded_length_mod [of 16 "length txt"] by (simp add: pad_switch_PKCS7 [OF ne])
    next
      case 4
      have "(length txt + (32 - length txt mod 32)) mod 32 = 0"
        by (rule padded_length_mod) simp
      then have "(length txt + (32 - length txt mod 32)) mod 16 = 0" by presburger
      with 4 show ?thesis by (simp add: pad_switch_PKCS7 [OF ne])
    qed
  qed
  then obtain pt where pt: "pad_switch (cbc_mode c) (cbc_key c) (aes (cbc_key c)) txt = Inr pt"
    "length pt mod 16 = 0" by auto
  then have "\<exists>ct. cbc_Encrypt aes c txt = Inr ct \<and> length ct = length pt"
    using a by (intro cbc_Encrypt_length [OF assms]) simp_all
  with pt show "\<exists>pt ct. pad_switch (cbc_mode c) (cbc_key c) (aes (cbc_key c)) txt = Inr pt \<and>
          length pt mod 16 = 0 \<and> cbc_Encrypt aes c txt = Inr ct \<and> length ct = length pt"
    by auto
qed

theorem cbc_errors_and_ciphertext_length_witness:
  "aes_contract shift_cipher \<and>
   cbc_Encrypt shift_cipher \<lparr>cbc_key = replicate 15 0, cbc_iv = replicate 16 0, cbc_mode = PKCS5\<rparr> [1]
     = Inl (Error (KeySizeError 15)) \<and>
   cbc_Decrypt shift_cipher \<lparr>cbc_key = replicate 16 0, cbc_iv = replicate 12 0, cbc_mode = PKCS5\<rparr> [1]
     = Inl (Error ErrIVLength) \<and>
   (\<exists>ct. cbc_Encrypt shift_cipher \<lparr>cbc_key = replicate 32 0, cbc_iv = replicate 16 0, cbc_mode = ''raw''\<rparr>
            (replicate 16 1) = Inr ct \<and> length ct = 16) \<and>
   (\<exists>pt ct. pad_switch PKCS7 (replicate 32 0) (shift_cipher (replicate 32 0)) [1] = Inr pt \<and>
      cbc_Encrypt shift_cipher \<lparr>cbc_key = replicate 32 0, cbc_iv = replicate 16 0, cbc_mode = PKCS7\<rparr> [1]
        = Inr ct \<and> length ct = length pt)"
proof -
  have raw: "pad_switch ''raw'' (replicate 32 0) (shift_cipher (replicate 32 0)) (replicate 16 1)
      = Inr (replicate 16 1)"
    by (simp add: pad_switch_def ZERO_def PKCS5_def PKCS7_def)
  show ?thesis
    using shift_cipher_contract raw
      cbc_errors_and_ciphertext_length [OF shift_cipher_contract,
        of "\<lparr>cbc_key = replicate 15 0, cbc_iv = replicate 16 0, cbc_mode = PKCS5\<rparr>" "[1]"]
      cbc_errors_and_ciphertext_length [OF shift_cipher_contract,
        of "\<lparr>cbc_key = replicate 16 0, cbc_iv = replicate 12 0, cbc_mode = PKCS5\<rparr>" "[1]"]
      cbc_errors_and_ciphertext_length [OF shift_cipher_contract,
        of "\<lparr>cbc_key = replicate 32 0, cbc_iv = replicate 16 0, cbc_mode = ''raw''\<rparr>"
           "replicate 16 1" "replicate 16 1"]
      cbc_errors_and_ciphertext_length [OF shift_cipher_contract,
        of "\<lparr>cbc_key = replicate 32 0, cbc_iv = replicate 16 0, cbc_mode = PKCS7\<rparr>" "[1]"]
    by (simp add: valid_key_def) blast
qed

text \<open>
  Claim C5 as first stated fails: with a 24-byte key, a 16-byte IV and PKCS7 mode the
  empty plaintext is padded to 24 bytes, and \<^verbatim>\<open>Encrypt\<close> returns no ciphertext. The length
  check of \<^verbatim>\<open>CryptBlocks\<close> fails before the cipher is used, so the outcome is the same
  for every cipher with 16-byte blocks.
\<close>

theorem cbc_encrypt_aes192_pkcs7_counterexample:
  "valid_key (replicate 24 0) \<and> length (replicate 16 (0::byte)) = 16 \<and>
   pad_switch PKCS7 (replicate 24 0) (shift_cipher (replicate 24 0)) [] = Inr (replicate 24 24) \<and>
   cbc_Encrypt shift_cipher \<lparr>cbc_key = replicate 24 0, cbc_iv = replicate 16 0, cbc_mode = PKCS7\<rparr> []
     = Inl (Panic InputNotFullBlocks)"
  by (simp add: valid_key_def cbc_Encrypt_def NewCipher_def shift_cipher_def pad_switch_def
      PKCS5Padding_def signed_modulo_int_def NewCBCEncrypter_def newCBC_def
      cbcEncrypter_CryptBlocks_def ZERO_def PKCS5_def PKCS7_def Let_def)

text \<open>
  Claim C10. With a 24-byte key and PKCS7 mode the plaintext is padded to a multiple of
  24 bytes. Whenever the padded length is not a multiple of 16, \<^verbatim>\<open>Encrypt\<close> panics with
  \<^verbatim>\<open>input not full blocks\<close>, in the CBC and in the ECB variant, and returns neither a
  ciphertext nor an error. The empty plaintext, padded to 24 bytes, is such a plaintext.
\<close>

theorem aes192_pkcs7_encrypt_panics:
  assumes "aes_contract aes" "length key = 24" "length iv = 16"
  shows
   "(let n = 24 - length p mod 24; padded = p @ replicate n (of_nat n) in
       pad_switch PKCS7 key (aes key) p = Inr padded \<and>
       length padded mod 24 = 0 \<and>
       (length padded mod 16 \<noteq> 0 \<longrightarrow>
          cbc_Encrypt aes \<lparr>cbc_key = key, cbc_iv = iv, cbc_mode = PKCS7\<rparr> p
            = Inl (Panic InputNotFullBlocks) \<and>
          ecb_Encrypt aes \<lparr>ecb_key = key, ecb_mode = PKCS7\<rparr> p
            = Inl (Panic InputNotFullBlocks)))"
proof -
  have v: "valid_key key" and ne: "key \<noteq> []" using assms(2) by (auto simp: valid_key_def)
  define n where "n = 24 - length p mod 24"
  define padded :: "byte list" where "padded = p @ replicate n (of_nat n)"
  have ps: "pad_switch PKCS7 key (aes key) p = Inr padded"
    using pad_switch_PKCS7 [OF ne, of "aes key" p] assms(2) by (simp add: padded_def n_def)
  have l: "length padded mod 24 = 0"
    using padded_length_mod [of 24 "length p"] by (simp add: padded_def n_def)
  have c: "cbc_Encrypt aes \<lparr>cbc_key = key, cbc_iv = iv, cbc_mode = PKCS7\<rparr> p
            = Inl (Panic InputNotFullBlocks)" if "length padded mod 16 \<noteq> 0"
    using that ps assms(3) by (simp add: cbc_Encrypt_valid [OF assms(1)] v)
  have e: "ecb_Encrypt aes \<lparr>ecb_key = key, ecb_mode = PKCS7\<rparr> p
            = Inl (Panic InputNotFullBlocks)" if "length padded mod 16 \<noteq> 0"
    using that ps by (simp add: ecb_Encrypt_valid [OF assms(1)] v)
  show ?thesis
    unfolding Let_def n_def [symmetric] padded_def [symmetric]
    using ps l c e by blast
qed

theorem aes192_pkcs7_encrypt_panics_witness:
  "aes_contract shift_cipher \<and>
   pad_switch PKCS7 (replicate 24 3) (shift_cipher (replicate 24 3)) [] = Inr (replicate 24 24) \<and>
   length (replicate 24 (24::byte)) mod 16 \<noteq> 0 \<and>
   cbc_Encrypt shift_cipher \<lparr>cbc_key = replicate 24 3, cbc_iv = replicate 16 4, cbc_mode = PKCS7\<rparr> []
     = Inl (Panic InputNotFullBlocks) \<and>
   ecb_Encrypt shift_cipher \<lparr>ecb_key = replicate 24 3, ecb_mode = PKCS7\<rparr> []
     = Inl (Panic InputNotFullBlocks)"
proof -
  have k: "length (replicate 24 (3::byte)) = 24" and i: "length (replicate 16 (4::byte)) = 16"
    by simp_all
  show ?thesis
    using shift_cipher_contract
      aes192_pkcs7_encrypt_panics [OF shift_cipher_contract k i, of "[]"]
    by (simp add: Let_def)
qed

text \<open>
  Claim C1, amended. For every valid key, every 16-byte IV and every plaintext (of any
  length), \<^verbatim>\<open>Decrypt(Encrypt(plaintext))\<close> returns the plaintext, in the CBC and in the
  ECB variant: in PKCS5 mode; in PKCS7 mode (with a 24-byte key: when the padded length
  is a multiple of 16); and in Zero mode when the plaintext is empty or does not end in a
  zero byte. In Zero mode the round trip returns the plaintext without its trailing zero
  bytes.
\<close>

theorem roundtrip_except_trailing_zeros:
  assumes "aes_contract aes" "valid_key key" "length iv = 16"
  shows
   "(mode = PKCS5 \<or>
     (mode = PKCS7 \<and> (length key = 24 \<longrightarrow> (length p + (24 - length p mod 24)) mod 16 = 0)) \<or>
     (mode = ZERO \<and> (p = [] \<or> last p \<noteq> 0)) \<longrightarrow>
       cbc_roundtrip aes \<lparr>cbc_key = key, cbc_iv = iv, cbc_mode = mode\<rparr> p = Inr p \<and>
       ecb_roundtrip aes \<lparr>ecb_key = key, ecb_mode = mode\<rparr> p = Inr p) \<and>
    (mode = ZERO \<longrightarrow>
       cbc_roundtrip aes \<lparr>cbc_key = key, cbc_iv = iv, cbc_mode = mode\<rparr> p = Inr (ZeroUnPadding p) \<and>
       ecb_roundtrip aes \<lparr>ecb_key = key, ecb_mode = mode\<rparr> p = Inr (ZeroUnPadding p))"
proof -
  let ?c = "\<lparr>cbc_key = key, cbc_iv = iv, cbc_mode = mode\<rparr>"
  let ?e = "\<lparr>ecb_key = key, ecb_mode = mode\<rparr>"
  have bs: "BlockSize (aes key) = 16" using assms by (simp add: contract_BlockSize)
  have ne: "key \<noteq> []" using assms(2) by (auto simp: valid_key_def)
  have rt: "cbc_roundtrip aes ?c p = unpad_switch mode key (aes key) padded \<and>
            ecb_roundtrip aes ?e p = unpad_switch mode key (aes key) padded"
    if "pad_switch mode key (aes key) p = Inr padded" "length padded mod 16 = 0" for padded
    using cbc_roundtrip_unpad [OF assms(1), of ?c p padded]
      ecb_roundtrip_unpad [OF assms(1), of ?e p padded] that assms(2,3) by simp
  have zero: "cbc_roundtrip aes ?c p = Inr (ZeroUnPadding p) \<and>
              ecb_roundtrip aes ?e p = Inr (ZeroUnPadding p)" if m: "mode = ZERO"
  proof -
    have "length (p @ replicate (16 - length p mod 16) (0::byte)) mod 16 = 0"
      using padded_length_mod [of 16 "length p"] by simp
    then show ?thesis
      using rt [of "p @ replicate (16 - length p mod 16) 0"] m pad_switch_ZERO [OF bs, of key p]
      by (simp add: unpad_switch_def ZeroUnPadding_def TrimRightZero_append_zeros)
  qed
  have pk: "cbc_roundtrip aes ?c p = Inr p \<and> ecb_roundtrip aes ?e p = Inr p"
    if ps: "pad_switch mode key (aes key) p = Inr (p @ replicate (b - length p mod b) (of_nat (b - length p mod b)))"
      and us: "\<And>xs. unpad_switch mode key (aes key) xs = PKCS5Unpadding xs (int b)"
      and b: "0 < b" "b < 256" "(length p + (b - length p mod b)) mod 16 = 0" for b
  proof -
    let ?n = "b - length p mod b"
    have "length p mod b < b" using b(1) by simp
    then have "1 \<le> ?n" "?n \<le> b" "?n < 256" using b(2) by linarith+
    then have "PKCS5Unpadding (p @ replicate ?n (of_nat ?n)) (int b) = Inr p"
      by (rule PKCS5Unpadding_nat)
    moreover have "length (p @ replicate ?n (of_nat ?n :: byte)) mod 16 = 0" using b(3) by simp
    ultimately show ?thesis using rt [OF ps] us by simp
  qed
  have p5: "cbc_roundtrip aes ?c p = Inr p \<and> ecb_roundtrip aes ?e p = Inr p" if m: "mode = PKCS5"
  proof (rule pk [of 16])
    show "pad_switch mode key (aes key) p
        = Inr (p @ replicate (16 - length p mod 16) (of_nat (16 - length p mod 16)))"
      using pad_switch_PKCS5 [OF bs, of key p] m by simp
    show "unpad_switch mode key (aes key) xs = PKCS5Unpadding xs (int 16)" for xs
      using m bs by (simp add: unpad_switch_def)
    show "(length p + (16 - length p mod 16)) mod 16 = 0" by (rule padded_length_mod) simp
  qed simp_all
  have p7: "cbc_roundtrip aes ?c p = Inr p \<and> ecb_roundtrip aes ?e p = Inr p"
    if m: "mode = PKCS7" and k: "length key = 24 \<longrightarrow> (length p + (24 - length p mod 24)) mod 16 = 0"
  proof (rule pk [of "length key"])
    show "pad_switch mode key (aes key) p
        = Inr (p @ replicate (length key - length p mod length key)
                             (of_nat (length key - length p mod length key)))"
      using pad_switch_PKCS7 [OF ne, of "aes key" p] m by simp
    show "unpad_switch mode key (aes key) xs = PKCS5Unpadding xs (len key)" for xs
      using m by (simp add: unpad_switch_def)
    show "0 < length key" "length key < 256" using assms(2) by (auto simp: valid_key_def)
    consider "length key = 16" | "length key = 24" | "length key = 32"
      using assms(2) by (auto simp: valid_key_def)
    then show "(length p + (length key - length p mod length key)) mod 16 = 0"
    proof cases
      case 1
      then show ?thesis using padded_length_mod [of 16 "length p"] by simp
    next
      case 2
      then show ?thesis using k by simp
    next
      case 3
      have "(length p + (32 - length p mod 32)) mod 32 = 0" by (rule padded_length_mod) simp
      then have "(length p + (32 - length p mod 32)) mod 16 = 0" by presburger
      with 3 show ?thesis by simp
    qed
  qed
  have z: "cbc_roundtrip aes ?c p = Inr p \<and> ecb_roundtrip aes ?e p = Inr p"
    if "mode = ZERO" "p = [] \<or> last p \<noteq> 0"
    using zero [OF that(1)] that(2) TrimRightZero_id [of p] by (simp add: ZeroUnPadding_def)
  show ?thesis using zero p5 p7 z by blast
qed

theorem roundtrip_except_trailing_zeros_witness:
  "aes_contract shift_cipher \<and>
   cbc_roundtrip shift_cipher \<lparr>cbc_key = replicate 32 1, cbc_iv = replicate 16 2, cbc_mode = PKCS7\<rparr> [9, 0]
     = Inr [9, 0] \<and>
   ecb_roundtrip shift_cipher \<lparr>ecb_key = replicate 24 1, ecb_mode = PKCS7\<rparr> (replicate 24 5)
     = Inr (replicate 24 5) \<and>
   ecb_roundtrip shift_cipher \<lparr>ecb_key = replicate 16 1, ecb_mode = PKCS5\<rparr> [] = Inr [] \<and>
   ecb_roundtrip shift_cipher \<lparr>ecb_key = replicate 16 1, ecb_mode = ZERO\<rparr> [9, 3] = Inr [9, 3] \<and>
   cbc_roundtrip shift_cipher \<lparr>cbc_key = replicate 16 1, cbc_iv = replicate 16 2, cbc_mode = ZERO\<rparr> [9, 0, 0]
     = Inr [9]"
proof -
  have v: "valid_key (replicate 32 1)" "valid_key (replicate 24 1)" "valid_key (replicate 16 1)"
    by (simp_all add: valid_key_def)
  have i: "length (replicate 16 (2::byte)) = 16" by simp
  note t = roundtrip_except_trailing_zeros [OF shift_cipher_contract _ i]
  show ?thesis
    using shift_cipher_contract
      t [OF v(1), of PKCS7 "[9, 0]"] t [OF v(2), of PKCS7 "replicate 24 5"]
      t [OF v(3), of PKCS5 "[]"] t [OF v(3), of ZERO "[9, 3]"] t [OF v(3), of ZERO "[9, 0, 0]"]
    by (simp add: ZeroUnPadding_def)
qed

text \<open>
  Claim C1 as first stated fails in Zero mode: the plaintext \<open>[9, 0]\<close> comes back as
  \<open>[9]\<close>. By the theorem above the same holds for every cipher that meets the contract.
\<close>

theorem roundtrip_zero_mode_counterexample:
  "valid_key (replicate 16 1) \<and> length (replicate 16 (2::byte)) = 16 \<and>
   cbc_roundtrip shift_cipher \<lparr>cbc_key = replicate 16 1, cbc_iv = replicate 16 2, cbc_mode = ZERO\<rparr> [9, 0]
     = Inr [9] \<and>
   ecb_roundtrip shift_cipher \<lparr>ecb_key = replicate 16 1, ecb_mode = ZERO\<rparr> [9, 0] = Inr [9] \<and>
   cbc_roundtrip shift_cipher \<lparr>cbc_key = replicate 16 1, cbc_iv = replicate 16 2, cbc_mode = ZERO\<rparr> [9, 0]
     \<noteq> Inr [9, 0] \<and>
   ecb_roundtrip shift_cipher \<lparr>ecb_key = replicate 16 1, ecb_mode = ZERO\<rparr> [9, 0] \<noteq> Inr [9, 0]"
  by code_simp

lemma cbc_decrypt_loop_length:
  assumes "block_contract b"
  shows "length src = k * 16 \<Longrightarrow> length dst = length src \<Longrightarrow> length iv = 16 \<Longrightarrow>
     length (cbc_decrypt_loop b 16 iv dst src) = length src"
proof (induction k arbitrary: src dst iv)
  case 0
  then show ?case by (simp add: cbc_decrypt_loop_Nil)
next
  case (Suc k)
  have "length (Decrypt b (take 16 src)) = 16"
    using assms Suc.prems by (simp add: block_contract_def)
  moreover have "length (cbc_decrypt_loop b 16 (take 16 src) (drop 16 dst) (drop 16 src))
      = length (drop 16 src)"
    using Suc.prems by (intro Suc.IH) simp_all
  ultimately show ?case
    using Suc.prems
    by (simp add: cbc_decrypt_loop.simps [of b 16 iv dst src] xor_bytes_length)
qed

text \<open>
  Decrypt in PKCS5 or PKCS7 mode panics on the empty ciphertext, and does not panic on a
  non-empty block-aligned ciphertext when the block size of the unpadding is 16.
\<close>

lemma decrypt_empty_pkcs_panics:
  assumes "aes_contract aes" "valid_key key" "length iv = 16" "mode = PKCS5 \<or> mode = PKCS7"
  shows "cbc_Decrypt aes \<lparr>cbc_key = key, cbc_iv = iv, cbc_mode = mode\<rparr> [] = Inl (Panic IndexOutOfRange)"
    and "ecb_Decrypt aes \<lparr>ecb_key = key, ecb_mode = mode\<rparr> [] = Inl (Panic IndexOutOfRange)"
  using assms(2-4)
  by (auto simp: cbc_Decrypt_valid [OF assms(1)] ecb_Decrypt_valid [OF assms(1)]
      cbc_decrypt_loop_Nil ecb_decrypt_loop_Nil unpad_switch_def PKCS5Unpadding_def)

lemma PKCS5Unpadding_fits:
  assumes "xs \<noteq> []" "bs \<le> len xs"
  shows "\<exists>pt. PKCS5Unpadding xs bs = Inr pt"
proof -
  have "uint (last xs) \<le> bs \<Longrightarrow> \<not> len xs < uint (last xs)" using assms(2) by linarith
  then show ?thesis by (auto simp: PKCS5Unpadding_nonempty [OF assms(1)] Let_def)
qed

lemma decrypt_block_aligned_no_panic:
  assumes "aes_contract aes" "valid_key key" "length iv = 16"
    and "mode = PKCS5 \<or> (mode = PKCS7 \<and> length key = 16)"
    and "ct \<noteq> []" "length ct mod 16 = 0"
  shows "\<exists>pt. cbc_Decrypt aes \<lparr>cbc_key = key, cbc_iv = iv, cbc_mode = mode\<rparr> ct = Inr pt"
    and "\<exists>pt. ecb_Decrypt aes \<lparr>ecb_key = key, ecb_mode = mode\<rparr> ct = Inr pt"
proof -
  obtain k where k: "length ct = k * 16" using mod_16_mult [OF assms(6)] by auto
  have bc: "block_contract (aes key)" and bs: "BlockSize (aes key) = 16"
    using assms(1,2) by (simp_all add: contract_block contract_BlockSize)
  have ge: "16 \<le> length ct" using assms(5) k by (cases k) simp_all
  let ?d = "cbc_decrypt_loop (aes key) 16 iv (replicate (length ct) 0) ct"
  let ?e = "ecb_decrypt_loop (newECB (aes key)) (replicate (length ct) 0) ct"
  have us: "unpad_switch mode key (aes key) xs = PKCS5Unpadding xs 16" for xs
    using assms(4) bs by (auto simp: unpad_switch_def)
  have "length ?d = length ct"
    using k assms(3) by (intro cbc_decrypt_loop_length [OF bc]) simp_all
  then have "?d \<noteq> [] \<and> 16 \<le> len ?d" using ge by auto
  then have "\<exists>pt. PKCS5Unpadding ?d 16 = Inr pt" by (intro PKCS5Unpadding_fits) simp_all
  then show "\<exists>pt. cbc_Decrypt aes \<lparr>cbc_key = key, cbc_iv = iv, cbc_mode = mode\<rparr> ct = Inr pt"
    using assms(2,3,6) by (simp add: cbc_Decrypt_valid [OF assms(1)] us)
  have "block_contract (ecb_b (newECB (aes key)))" "ecb_blockSize (newECB (aes key)) = 16"
    using bc bs by (simp_all add: newECB_def)
  then have "length ?e = length (replicate (length ct) (0::byte))"
    using ecb_decrypt_loop_blocks [of "newECB (aes key)" ct k "replicate (length ct) 0"] k by simp
  then have "?e \<noteq> [] \<and> 16 \<le> len ?e" using ge by auto
  then have "\<exists>pt. PKCS5Unpadding ?e 16 = Inr pt" by (intro PKCS5Unpadding_fits) simp_all
  then show "\<exists>pt. ecb_Decrypt aes \<lparr>ecb_key = key, ecb_mode = mode\<rparr> ct = Inr pt"
    using assms(2,6) by (simp add: ecb_Decrypt_valid [OF assms(1)] us)
qed

text \<open>
  With a key of 24 or 32 bytes the unpadding of PKCS7 mode takes the key length as the
  block size. A ciphertext of one block whose plaintext block ends in a byte above 16
  and up to the key length then panics, whatever the cipher: such a ciphertext is the
  encryption of that block.
\<close>

lemma pkcs7_decrypt_one_block_panics:
  assumes "aes_contract aes" "valid_key key" "length iv = 16"
    and "length blk = 16" "16 < uint (last blk)" "uint (last blk) \<le> len key"
  shows "ecb_Decrypt aes \<lparr>ecb_key = key, ecb_mode = PKCS7\<rparr> (Encrypt (aes key) blk)
           = Inl (Panic SliceBoundsOutOfRange)"
    and "cbc_Decrypt aes \<lparr>cbc_key = key, cbc_iv = iv, cbc_mode = PKCS7\<rparr>
           (Encrypt (aes key) (xor_bytes blk iv)) = Inl (Panic SliceBoundsOutOfRange)"
proof -
  have bc: "block_contract (aes key)" and bs: "BlockSize (aes key) = 16"
    using assms(1,2) by (simp_all add: contract_block contract_BlockSize)
  have ne: "blk \<noteq> []" using assms(4) by auto
  have u: "PKCS5Unpadding blk (len key) = Inl (Panic SliceBoundsOutOfRange)"
    using assms(4-6) by (simp add: PKCS5Unpadding_nonempty [OF ne] Let_def)
  let ?c = "Encrypt (aes key) blk"
  have c: "length ?c = 16" "Decrypt (aes key) ?c = blk"
    using bc assms(4) by (simp_all add: block_contract_def)
  have "ecb_decrypt_loop (newECB (aes key)) (replicate 16 0) ?c = blk"
    using c bs
    by (simp add: ecb_decrypt_loop.simps [of _ "replicate 16 0" ?c] ecb_decrypt_loop_Nil newECB_def)
  then show "ecb_Decrypt aes \<lparr>ecb_key = key, ecb_mode = PKCS7\<rparr> ?c = Inl (Panic SliceBoundsOutOfRange)"
    using c(1) u assms(2) by (simp add: ecb_Decrypt_valid [OF assms(1)] unpad_switch_def)
  let ?x = "xor_bytes blk iv"
  let ?c' = "Encrypt (aes key) ?x"
  have x: "length ?x = 16" using assms(3,4) by (simp add: xor_bytes_length)
  have c': "length ?c' = 16" "Decrypt (aes key) ?c' = ?x"
    using bc x by (simp_all add: block_contract_def)
  have "xor_bytes ?x iv = blk" using assms(3,4) by (intro xor_bytes_cancel) simp
  then have "cbc_decrypt_loop (aes key) 16 iv (replicate 16 0) ?c' = blk"
    using c'
    by (simp add: cbc_decrypt_loop.simps [of _ 16 iv "replicate 16 0" ?c'] cbc_decrypt_loop_Nil)
  then show "cbc_Decrypt aes \<lparr>cbc_key = key, cbc_iv = iv, cbc_mode = PKCS7\<rparr> ?c'
               = Inl (Panic SliceBoundsOutOfRange)"
    using c'(1) u assms(2,3) by (simp add: cbc_Decrypt_valid [OF assms(1)] unpad_switch_def)
qed

text \<open>
  Claim C9. \<^verbatim>\<open>Decrypt\<close> in PKCS7 mode with a 32-byte key unpads with block size 32. On
  a ciphertext of one 16-byte block whose decryption ends in the byte 32,
  \<^verbatim>\<open>PKCS5Unpadding\<close> takes 32 for the padding length and slices the 16-byte buffer at
  \<open>16 - 32\<close>: the code panics on a non-empty block-aligned ciphertext, in the CBC and in
  the ECB variant.
\<close>

theorem pkcs7_unpadding_short_block_panics:
  "PKCS5Unpadding (replicate 16 32) 32 = Inl (Panic SliceBoundsOutOfRange) \<and>
   cbc_Decrypt shift_cipher \<lparr>cbc_key = replicate 32 0, cbc_iv = replicate 16 0, cbc_mode = PKCS7\<rparr>
     (replicate 16 33) = Inl (Panic SliceBoundsOutOfRange) \<and>
   ecb_Decrypt shift_cipher \<lparr>ecb_key = replicate 32 0, ecb_mode = PKCS7\<rparr>
     (replicate 16 33) = Inl (Panic SliceBoundsOutOfRange)"
  by code_simp

section \<open>The claims about RSA keys\<close>

lemma NewPrivateKeyFromPemBlock_no_pem:
  "pem_Decode lib pemBlock = None \<Longrightarrow> NewPrivateKeyFromPemBlock lib pemBlock = Inl (Error ErrNoPEMData)"
  by (simp add: NewPrivateKeyFromPemBlock_def)

lemma block_types_distinct: "RSAPKCS1 \<noteq> RSAPKCS8"
  by (simp add: RSAPKCS1_def RSAPKCS8_def)

lemma NewPrivateKeyFromPemBlock_pkcs1:
  assumes "pem_Decode lib pemBlock = Some block" "pem_Type block = RSAPKCS1"
  shows "NewPrivateKeyFromPemBlock lib pemBlock =
    (case ParsePKCS1PrivateKey lib (pem_Bytes block) of
       Inl err \<Rightarrow> Inl (Error err) | Inr k \<Rightarrow> Inr \<lparr>priv_key = k\<rparr>)"
  using assms by (simp add: NewPrivateKeyFromPemBlock_def parse_switch_def split: sum.splits)

lemma NewPrivateKeyFromPemBlock_pkcs8:
  assumes "pem_Decode lib pemBlock = Some block" "pem_Type block = RSAPKCS8"
  shows "NewPrivateKeyFromPemBlock lib pemBlock =
    (case ParsePKCS8PrivateKey lib (pem_Bytes block) of
       Inl err \<Rightarrow> Inl (Error err)
     | Inr (RSAKey k) \<Rightarrow> Inr \<lparr>priv_key = k\<rparr>
     | Inr _ \<Rightarrow> Inl (Panic InterfaceConversion))"
  using assms block_types_distinct
  by (simp add: NewPrivateKeyFromPemBlock_def parse_switch_def split: sum.splits any_key.splits)

lemma NewPrivateKeyFromPemBlock_other_type:
  assumes "pem_Decode lib pemBlock = Some block" "pem_Type block \<noteq> RSAPKCS1" "pem_Type block \<noteq> RSAPKCS8"
  shows "NewPrivateKeyFromPemBlock lib pemBlock = Inl (Panic InterfaceConversion)"
  using assms by (simp add: NewPrivateKeyFromPemBlock_def parse_switch_def)

lemma NewPrivateKeyFromPemBlock_not_rsa:
  assumes "pem_Decode lib pemBlock = Some block" "pem_Type block = RSAPKCS8"
    and "ParsePKCS8PrivateKey lib (pem_Bytes block) = Inr k" "\<forall>r. k \<noteq> RSAKey r"
  shows "NewPrivateKeyFromPemBlock lib pemBlock = Inl (Panic InterfaceConversion)"
  using assms by (simp add: NewPrivateKeyFromPemBlock_pkcs8 split: any_key.splits)

text \<open>
  Claim C6. A PEM block of type \<^verbatim>\<open>PRIVATE KEY\<close> whose PKCS#8 content parses to an ECDSA
  key makes \<^verbatim>\<open>NewPrivateKeyFromPemBlock\<close> panic at the type assertion, and so does a PEM
  block of a type other than the two of the switch: no error is returned.
\<close>

theorem pem_block_with_ec_key_panics:
  "pem_Decode stub_x509 [8, 48, 129] = Some \<lparr>pem_Type = ''PRIVATE KEY'', pem_Bytes = [48, 129]\<rparr> \<and>
   ParsePKCS8PrivateKey stub_x509 [48, 129] = Inr (ECDSAKey [48, 129]) \<and>
   NewPrivateKeyFromPemBlock stub_x509 [8, 48, 129] = Inl (Panic InterfaceConversion) \<and>
   pem_Decode stub_x509 [2, 48] = Some \<lparr>pem_Type = ''EC PRIVATE KEY'', pem_Bytes = [48]\<rparr> \<and>
   NewPrivateKeyFromPemBlock stub_x509 [2, 48] = Inl (Panic InterfaceConversion)"
  by (simp add: stub_x509_def NewPrivateKeyFromPemBlock_def parse_switch_def RSAPKCS1_def RSAPKCS8_def)

text \<open>
  Claim C7. \<^verbatim>\<open>Sign\<close> and \<^verbatim>\<open>Verify\<close> return the error
  \<^verbatim>\<open>requested hash function is unavailable\<close> when the hash is not available, and they
  never panic. With an available hash, \<^verbatim>\<open>Sign\<close> is the PKCS#1 v1.5 signature of the
  digest of the data, and \<^verbatim>\<open>Verify\<close> is the PKCS#1 v1.5 verification of the signature
  against the digest of the data: when that reports \<^verbatim>\<open>rsa.ErrVerification\<close>, for a
  signature that does not match, \<^verbatim>\<open>Verify\<close> returns that error.
\<close>

theorem sign_verify_digest_errors:
  "(\<not> hash_Available lib h \<longrightarrow>
      Sign lib pk h data = Inl (Error (ErrHashUnavailable h)) \<and>
      Verify lib pub h data sig = Inl (Error (ErrHashUnavailable h))) \<and>
   (hash_Available lib h \<longrightarrow>
      Sign lib pk h data =
        (case SignPKCS1v15 lib (priv_key pk) h (hash_Sum lib h data) of
           Inl err \<Rightarrow> Inl (Error err) | Inr s \<Rightarrow> Inr s) \<and>
      Verify lib pub h data sig =
        (case VerifyPKCS1v15 lib (pub_key pub) h (hash_Sum lib h data) sig of
           Some err \<Rightarrow> Inl (Error err) | None \<Rightarrow> Inr ())) \<and>
   (hash_Available lib h \<and>
    VerifyPKCS1v15 lib (pub_key pub) h (hash_Sum lib h data) sig = Some ErrVerification \<longrightarrow>
      Verify lib pub h data sig = Inl (Error ErrVerification)) \<and>
   (\<forall>p. Sign lib pk h data \<noteq> Inl (Panic p) \<and> Verify lib pub h data sig \<noteq> Inl (Panic p))"
  by (auto simp: Sign_def Verify_def hash_digest_def split: sum.splits option.splits)

theorem sign_verify_digest_errors_witness:
  "\<not> hash_Available stub_rsa 1 \<and>
   Sign stub_rsa \<lparr>priv_key = RSAPrivateKey 3233 17 413\<rparr> 1 [1, 2, 3] = Inl (Error (ErrHashUnavailable 1)) \<and>
   Verify stub_rsa \<lparr>pub_key = RSAPublicKey 3233 17\<rparr> 1 [1, 2, 3] [3, 2, 1, 1]
     = Inl (Error (ErrHashUnavailable 1)) \<and>
   hash_Available stub_rsa 5 \<and>
   Sign stub_rsa \<lparr>priv_key = RSAPrivateKey 3233 17 413\<rparr> 5 [1, 2, 3] = Inr [3, 2, 1, 1] \<and>
   Verify stub_rsa \<lparr>pub_key = RSAPublicKey 3233 17\<rparr> 5 [1, 2, 3] [3, 2, 1, 1] = Inr () \<and>
   Verify stub_rsa \<lparr>pub_key = RSAPublicKey 3233 17\<rparr> 5 [1, 2, 3] [3, 2, 1, 0]
     = Inl (Error ErrVerification)"
  using
    sign_verify_digest_errors [of stub_rsa 1 "\<lparr>priv_key = RSAPrivateKey 3233 17 413\<rparr>" "[1, 2, 3]"
      "\<lparr>pub_key = RSAPublicKey 3233 17\<rparr>" "[3, 2, 1, 1]"]
    sign_verify_digest_errors [of stub_rsa 5 "\<lparr>priv_key = RSAPrivateKey 3233 17 413\<rparr>" "[1, 2, 3]"
      "\<lparr>pub_key = RSAPublicKey 3233 17\<rparr>" "[3, 2, 1, 1]"]
    sign_verify_digest_errors [of stub_rsa 5 "\<lparr>priv_key = RSAPrivateKey 3233 17 413\<rparr>" "[1, 2, 3]"
      "\<lparr>pub_key = RSAPublicKey 3233 17\<rparr>" "[3, 2, 1, 0]"]
  by (simp add: stub_rsa_def)

end
